theory Spec2Isabelle
  imports Main
begin

section \<open>JavaScript values, objects and thrown errors\<close>

text \<open>
  The agent runtime is TypeScript. Values of type \<open>unknown\<close> (action parameters,
  observation payloads, parsed planner output) are JavaScript values. Numbers are
  restricted to integers; strings are lists of 8-bit characters (the Latin-1 range of
  the UTF-16 code units). An object (\<open>Record<string, unknown>\<close>) is the list of its
  own properties in insertion order.
\<close>

datatype jsvalue =
    JUndefined
  | JNull
  | JBool bool
  | JNumber int
  | JString string
  | JArray "jsvalue list"
  | JObject "(string \<times> jsvalue) list"

type_synonym jsrecord = "(string \<times> jsvalue) list"

text \<open>
  A thrown value is either an \<open>Error\<close> object (of any subclass, \<open>TypeError\<close>
  included) with its message, or some other value. The handlers of this program only
  ever test \<open>error instanceof Error\<close> and read \<open>error.message\<close>.
\<close>

datatype thrown = JsError string | NonError

text \<open>
  Every plain object literal inherits from \<open>Object.prototype\<close>. A property read
  \<open>obj[key]\<close> finds the own property, else the inherited one, else \<open>undefined\<close>.
  These are the property names of \<open>Object.prototype\<close>; every one of them holds a
  function or an object, hence a truthy value that has no property \<open>schema\<close>.
\<close>

definition objectPrototypeKeys :: "string list" where
  "objectPrototypeKeys =
    [''constructor'', ''__defineGetter__'', ''__defineSetter__'', ''hasOwnProperty'',
     ''__lookupGetter__'', ''__lookupSetter__'', ''isPrototypeOf'',
     ''propertyIsEnumerable'', ''toString'', ''valueOf'', ''__proto__'',
     ''toLocaleString'']"

datatype 'a property = Own 'a | Inherited | Absent

definition readProperty :: "(string \<times> 'a) list \<Rightarrow> string \<Rightarrow> 'a property" where
  "readProperty obj key =
    (case map_of obj key of
       Some v \<Rightarrow> Own v
     | None \<Rightarrow> if key \<in> set objectPrototypeKeys then Inherited else Absent)"

text \<open>
  \<open>params[key]\<close> for a key that is not a name of \<open>Object.prototype\<close>: the own
  property, else \<open>undefined\<close>. All keys this program reads from parameters are schema
  keys or handler keys, none of which is inherited (lemma \<open>schema_keys_not_inherited\<close>).
\<close>

definition getParam :: "jsrecord \<Rightarrow> string \<Rightarrow> jsvalue" where
  "getParam obj key = (case map_of obj key of Some v \<Rightarrow> v | None \<Rightarrow> JUndefined)"

definition dquote :: "string \<Rightarrow> string" where
  "dquote s = CHR 0x22 # s @ [CHR 0x22]"

text \<open>
  \<open>Array.prototype.slice\<close> and \<open>String.prototype.slice\<close>: a negative index counts
  from the end, and both indices are clamped to the length.
\<close>

definition sliceIndex :: "nat \<Rightarrow> int \<Rightarrow> nat" where
  "sliceIndex len i = (if i < 0 then nat (max (int len + i) 0) else min (nat i) len)"

definition slice :: "'a list \<Rightarrow> int \<Rightarrow> int \<Rightarrow> 'a list" where
  "slice xs start fin =
     (let a = sliceIndex (length xs) start; b = sliceIndex (length xs) fin
      in take (b - a) (drop a xs))"

definition sliceFrom :: "'a list \<Rightarrow> int \<Rightarrow> 'a list" where
  "sliceFrom xs start = drop (sliceIndex (length xs) start) xs"

text \<open>\<open>xs.join(sep)\<close> on a list of strings.\<close>

fun joinWith :: "string \<Rightarrow> string list \<Rightarrow> string" where
  "joinWith sep [] = []"
| "joinWith sep [x] = x"
| "joinWith sep (x # y # ys) = x @ sep @ joinWith sep (y # ys)"

text \<open>
  \<open>String.prototype.trim\<close> strips white space and line terminators at both ends; in
  the 8-bit range these are TAB, LF, VT, FF, CR, SP and NBSP.
\<close>

definition isWhiteSpace :: "char \<Rightarrow> bool" where
  "isWhiteSpace c =
     (c \<in> set [CHR 0x09, CHR 0x0A, CHR 0x0B, CHR 0x0C, CHR 0x0D, CHR 0x20, CHR 0xA0])"

definition trim :: "string \<Rightarrow> string" where
  "trim s = rev (dropWhile isWhiteSpace (rev (dropWhile isWhiteSpace s)))"

definition indexOf :: "string \<Rightarrow> char \<Rightarrow> int" where
  "indexOf s c =
     (if c \<in> set s then int (length (takeWhile (\<lambda>x. x \<noteq> c) s)) else - 1)"

definition lastIndexOf :: "string \<Rightarrow> char \<Rightarrow> int" where
  "lastIndexOf s c =
     (if c \<in> set s
      then int (length s) - 1 - int (length (takeWhile (\<lambda>x. x \<noteq> c) (rev s)))
      else - 1)"

definition startsWith :: "string \<Rightarrow> string \<Rightarrow> bool" where
  "startsWith s p = (take (length p) s = p)"

text \<open>JavaScript truthiness of a value (\<open>!value\<close> is its negation).\<close>

fun truthy :: "jsvalue \<Rightarrow> bool" where
  "truthy JUndefined = False"
| "truthy JNull = False"
| "truthy (JBool b) = b"
| "truthy (JNumber n) = (n \<noteq> 0)"
| "truthy (JString s) = (s \<noteq> [])"
| "truthy (JArray xs) = True"
| "truthy (JObject ps) = True"

section \<open>ToolRegistry.ts\<close>

record schemaRule =
  rule_description :: string
  rule_required :: "bool option"

record toolExecution =
  invokesExecutor :: bool
  expectedLatencyMs :: nat

record AgentToolDefinition =
  tool_name :: string
  tool_description :: string
  tool_schema :: "(string \<times> schemaRule) list"
  tool_execution :: toolExecution
  tool_safetyNotes :: "string list option"

record AgentAction =
  action_type :: string
  action_params :: jsrecord

definition optionalParam :: "string \<Rightarrow> schemaRule" where
  "optionalParam d = \<lparr>rule_description = d, rule_required = None\<rparr>"

definition requiredParam :: "string \<Rightarrow> schemaRule" where
  "requiredParam d = \<lparr>rule_description = d, rule_required = Some True\<rparr>"

definition TOOL_DEFINITIONS :: "(string \<times> AgentToolDefinition) list" where
  "TOOL_DEFINITIONS =
   [(''navigate'',
     \<lparr>tool_name = ''navigate'',
      tool_description = ''Open a new URL in the active tab.'',
      tool_schema =
        [(''url'', requiredParam ''Absolute URL to open''),
         (''tabId'', optionalParam ''Optional tab id, defaults to current active tab.''),
         (''waitFor'', optionalParam
            ''Optional selector or keyword to wait for before proceeding.'')],
      tool_execution = \<lparr>invokesExecutor = True, expectedLatencyMs = 2000\<rparr>,
      tool_safetyNotes = Some
        [''Only navigate to URLs relevant to the current goal.'',
         ''Avoid triggering downloads or destructive actions.'']\<rparr>),
    (''click'',
     \<lparr>tool_name = ''click'',
      tool_description = ''Simulate a mouse click on an element.'',
      tool_schema =
        [(''selector'', requiredParam ''CSS selector targeting the element to click.''),
         (''tabId'', optionalParam ''Optional tab id, defaults to current active tab.''),
         (''button'', optionalParam
            ''Mouse button to use (left, right, middle). Defaults left.''),
         (''waitForNavigation'', optionalParam
            ''Set true if the click is expected to trigger navigation.'')],
      tool_execution = \<lparr>invokesExecutor = True, expectedLatencyMs = 1500\<rparr>,
      tool_safetyNotes = Some
        [''Avoid clicking destructive UI (delete, submit irreversible forms).'',
         ''Verify selector uniqueness before clicking.'']\<rparr>),
    (''type'',
     \<lparr>tool_name = ''type'',
      tool_description = ''Type text into an input or editable element.'',
      tool_schema =
        [(''selector'', requiredParam ''CSS selector of input element.''),
         (''text'', requiredParam ''Text to type into the field.''),
         (''tabId'', optionalParam ''Optional tab id, defaults to current active tab.''),
         (''submit'', optionalParam
            ''Set true to submit the form after typing (e.g., pressing Enter).''),
         (''clear'', optionalParam ''Set true to clear the input before typing.'')],
      tool_execution = \<lparr>invokesExecutor = True, expectedLatencyMs = 1200\<rparr>,
      tool_safetyNotes = Some [''Never type secrets or credentials unprompted.'']\<rparr>),
    (''wait'',
     \<lparr>tool_name = ''wait'',
      tool_description = ''Pause execution while waiting for a condition.'',
      tool_schema =
        [(''ms'', optionalParam ''Milliseconds to wait when using a fixed delay.''),
         (''tabId'', optionalParam ''Optional tab id, defaults to current active tab.''),
         (''until'', optionalParam
            ''CSS selector or keyword condition to wait for to appear.''),
         (''timeoutMs'', optionalParam ''Optional timeout for condition waits.'')],
      tool_execution = \<lparr>invokesExecutor = True, expectedLatencyMs = 1000\<rparr>,
      tool_safetyNotes = Some
        [''Use sparingly to avoid long blocking operations.'',
         ''Prefer condition waits over static delays when possible.'']\<rparr>),
    (''scroll'',
     \<lparr>tool_name = ''scroll'',
      tool_description = ''Scroll within the page to reveal new content.'',
      tool_schema =
        [(''direction'', requiredParam ''Direction to scroll (down, up, top, bottom).''),
         (''tabId'', optionalParam ''Optional tab id, defaults to current active tab.''),
         (''amount'', optionalParam
            ''Either pixel value or proportional amount to scroll (0-1).''),
         (''selector'', optionalParam ''Optional selector for a scrollable container.'')],
      tool_execution = \<lparr>invokesExecutor = True, expectedLatencyMs = 800\<rparr>,
      tool_safetyNotes = Some
        [''Ensure scrolling direction aligns with content layout.'',
         ''Avoid infinite scrolling loops.'']\<rparr>),
    (''extract'',
     \<lparr>tool_name = ''extract'',
      tool_description = ''Extract structured information from the page.'',
      tool_schema =
        [(''selector'', optionalParam
            ''CSS selector targeting elements containing desired content.''),
         (''tabId'', optionalParam ''Optional tab id, defaults to current active tab.''),
         (''attribute'', requiredParam
            ''Attribute name to read (e.g., textContent, href, value).''),
         (''purpose'', optionalParam ''Reason for extraction to guide LLM summarisation.'')],
      tool_execution = \<lparr>invokesExecutor = True, expectedLatencyMs = 1800\<rparr>,
      tool_safetyNotes = Some
        [''Only extract publicly visible information.'',
         ''Respect privacy and compliance requirements.'']\<rparr>),
    (''finish'',
     \<lparr>tool_name = ''finish'',
      tool_description = ''Indicate the task is complete with a final summary.'',
      tool_schema =
        [(''status'', requiredParam ''success or failed''),
         (''summary'', requiredParam ''Explanation for the current status.'')],
      tool_execution = \<lparr>invokesExecutor = False, expectedLatencyMs = 0\<rparr>,
      tool_safetyNotes = Some [''Use only to conclude the task.'']\<rparr>)]"

definition getTools :: "AgentToolDefinition list" where
  "getTools = map snd TOOL_DEFINITIONS"

text \<open>\<open>getTool(type)\<close> is the property read \<open>TOOL_DEFINITIONS[type]\<close>.\<close>

definition getTool :: "string \<Rightarrow> AgentToolDefinition property" where
  "getTool t = readProperty TOOL_DEFINITIONS t"

record validation =
  ok :: bool
  issues :: "string list option"

definition missingIssue :: "string \<Rightarrow> string \<Rightarrow> string" where
  "missingIssue key t =
     ''Missing required parameter '' @ dquote key @ '' for '' @ t @ ''.''"

definition isMissing :: "jsrecord \<Rightarrow> string \<times> schemaRule \<Rightarrow> bool" where
  "isMissing ps entry =
     (rule_required (snd entry) = Some True \<and>
      (getParam ps (fst entry) = JUndefined \<or> getParam ps (fst entry) = JNull))"

definition schemaIssues :: "AgentAction \<Rightarrow> (string \<times> schemaRule) list \<Rightarrow> string list" where
  "schemaIssues action schema =
     map (\<lambda>entry. missingIssue (fst entry) (action_type action))
         (filter (isMissing (action_params action)) schema)"

text \<open>
  \<open>validateAction\<close>. When \<open>TOOL_DEFINITIONS[type]\<close> is an inherited member of
  \<open>Object.prototype\<close> the guard \<open>!tool\<close> does not fire, \<open>tool.schema\<close> is
  \<open>undefined\<close> and \<open>Object.entries(undefined)\<close> throws a \<open>TypeError\<close>.
  The parameters of an action are an object here, as the type \<open>AgentAction\<close> says;
  an action whose \<open>params\<close> is \<open>undefined\<close> or \<open>null\<close>, on which the source
  throws when it reads \<open>action.params[key]\<close> for a registered kind, is outside the
  model.
\<close>

definition validateAction :: "AgentAction \<Rightarrow> thrown + validation" where
  "validateAction action =
    (case getTool (action_type action) of
       Absent \<Rightarrow>
         Inr \<lparr>ok = False,
              issues = Some [''Unknown tool '' @ dquote (action_type action) @ ''.'']\<rparr>
     | Inherited \<Rightarrow> Inl (JsError ''Cannot convert undefined or null to object'')
     | Own tool \<Rightarrow>
         (let found = schemaIssues action (tool_schema tool)
          in if length found > 0
             then Inr \<lparr>ok = False, issues = Some found\<rparr>
             else Inr \<lparr>ok = True, issues = None\<rparr>))"

definition registeredKinds :: "string list" where
  "registeredKinds =
     [''navigate'', ''click'', ''type'', ''wait'', ''scroll'', ''extract'', ''finish'']"

text \<open>The parameters a kind's schema marks as required, in schema order.\<close>

definition requiredParams :: "string \<Rightarrow> string list" where
  "requiredParams t =
     (case map_of TOOL_DEFINITIONS t of
        None \<Rightarrow> []
      | Some tool \<Rightarrow>
          map fst (filter (\<lambda>e. rule_required (snd e) = Some True) (tool_schema tool)))"

definition nullish :: "jsvalue \<Rightarrow> bool" where
  "nullish v = (v = JUndefined \<or> v = JNull)"

section \<open>AgentMemory.ts\<close>

datatype MemoryEntryType = Thought | ActionEntry | ObservationEntry | SummaryEntry

text \<open>
  Wall-clock fields (\<open>timestamp\<close>, \<open>createdAt\<close>, \<open>updatedAt\<close>) hold \<open>Date.now()\<close>;
  no control flow reads them and they are left out of the records.
\<close>

record MemoryEntry =
  entry_type :: MemoryEntryType
  entry_content :: string
  entry_metadata :: "jsrecord option"

type_synonym AgentMemory = "string \<rightharpoonup> MemoryEntry list"

definition entriesOf :: "AgentMemory \<Rightarrow> string \<Rightarrow> MemoryEntry list" where
  "entriesOf m taskId = (case m taskId of None \<Rightarrow> [] | Some l \<Rightarrow> l)"

definition remember :: "AgentMemory \<Rightarrow> string \<Rightarrow> MemoryEntry \<Rightarrow> AgentMemory" where
  "remember m taskId entry = m(taskId \<mapsto> entriesOf m taskId @ [entry])"

text \<open>\<open>getRecent(taskId, limit)\<close>; both branches return a fresh copy.\<close>

definition getRecent :: "AgentMemory \<Rightarrow> string \<Rightarrow> int \<Rightarrow> MemoryEntry list" where
  "getRecent m taskId limit =
    (let list = entriesOf m taskId
     in if limit \<le> 0 \<or> int (length list) \<le> limit then list
        else sliceFrom list (- limit))"

definition clear :: "AgentMemory \<Rightarrow> string \<Rightarrow> AgentMemory" where
  "clear m taskId = m(taskId := None)"

section \<open>utils/json.ts\<close>

text \<open>
  \<open>JSON.parse\<close> is a built-in; the functions take it as the parameter \<open>jsonParse\<close>,
  with \<open>None\<close> for a thrown \<open>SyntaxError\<close>. \<open>tryParse\<close> turns the exception into
  \<open>undefined\<close>, which \<open>JSON.parse\<close> never returns.
\<close>

definition tryParse :: "(string \<Rightarrow> jsvalue option) \<Rightarrow> string \<Rightarrow> jsvalue option" where
  "tryParse jsonParse payload = jsonParse payload"

definition parseJsonFromText :: "(string \<Rightarrow> jsvalue option) \<Rightarrow> string \<Rightarrow> jsvalue" where
  "parseJsonFromText jsonParse text =
    (if text = [] then JNull
     else
       let trimmed = trim text in
       (case tryParse jsonParse trimmed of
          Some direct \<Rightarrow> direct
        | None \<Rightarrow>
            (let firstBrace = indexOf trimmed CHR ''{'';
                 lastBrace = lastIndexOf trimmed CHR ''}''
             in if firstBrace = - 1 \<or> lastBrace = - 1 \<or> lastBrace \<le> firstBrace then JNull
                else
                  (let candidate = slice trimmed firstBrace (lastBrace + 1) in
                   (case tryParse jsonParse candidate of
                      Some embedded \<Rightarrow> embedded
                    | None \<Rightarrow> JNull)))))"

subsection \<open>A reference \<open>JSON.parse\<close> on a fragment of the grammar\<close>

text \<open>
  For evaluation on concrete texts: the JSON grammar with objects, arrays, strings
  without escape sequences, integers and the three literals. The fuel bounds the number
  of nested calls and is set to the length of the text plus one. A repeated key keeps
  its first position and takes the last value, as \<open>JSON.parse\<close> does.
\<close>

definition isJsonWs :: "char \<Rightarrow> bool" where
  "isJsonWs c = (c \<in> set [CHR 0x20, CHR 0x09, CHR 0x0A, CHR 0x0D])"

definition skipWs :: "string \<Rightarrow> string" where
  "skipWs cs = dropWhile isJsonWs cs"

definition isDigit :: "char \<Rightarrow> bool" where
  "isDigit c = (48 \<le> (of_char c :: nat) \<and> (of_char c :: nat) \<le> 57)"

definition digitsValue :: "string \<Rightarrow> int" where
  "digitsValue ds = foldl (\<lambda>acc c. 10 * acc + (int (of_char c) - 48)) 0 ds"

fun parseStringBody :: "string \<Rightarrow> (string \<times> string) option" where
  "parseStringBody [] = None"
| "parseStringBody (c # cs) =
     (if c = CHR 0x22 then Some ([], cs)
      else if c = CHR 0x5C \<or> (of_char c :: nat) < 32 then None
      else (case parseStringBody cs of
              None \<Rightarrow> None
            | Some (s, rest) \<Rightarrow> Some (c # s, rest)))"

definition parseNumber :: "string \<Rightarrow> (jsvalue \<times> string) option" where
  "parseNumber cs =
     (let neg = (cs \<noteq> [] \<and> hd cs = CHR ''-'');
          body = (if neg then tl cs else cs);
          ds = takeWhile isDigit body;
          rest = dropWhile isDigit body
      in if ds = [] \<or> (length ds > 1 \<and> hd ds = CHR ''0'') then None
         else if rest \<noteq> [] \<and> hd rest \<in> set [CHR ''.'', CHR ''e'', CHR ''E''] then None
         else Some (JNumber (if neg then - digitsValue ds else digitsValue ds), rest))"

definition setProperty :: "jsrecord \<Rightarrow> string \<Rightarrow> jsvalue \<Rightarrow> jsrecord" where
  "setProperty obj k v =
     (if k \<in> fst ` set obj then map (\<lambda>p. if fst p = k then (k, v) else p) obj
      else obj @ [(k, v)])"

fun parseValue :: "nat \<Rightarrow> string \<Rightarrow> (jsvalue \<times> string) option"
  and parseElements :: "nat \<Rightarrow> jsvalue list \<Rightarrow> string \<Rightarrow> (jsvalue \<times> string) option"
  and parseMembers :: "nat \<Rightarrow> jsrecord \<Rightarrow> string \<Rightarrow> (jsvalue \<times> string) option"
where
  "parseValue 0 cs = None"
| "parseValue (Suc n) cs =
     (case skipWs cs of
        [] \<Rightarrow> None
      | c # rest \<Rightarrow>
          if c = CHR ''{'' then
            (case skipWs rest of
               [] \<Rightarrow> None
             | d # rest' \<Rightarrow>
                 if d = CHR ''}'' then Some (JObject [], rest')
                 else parseMembers n [] (d # rest'))
          else if c = CHR ''['' then
            (case skipWs rest of
               [] \<Rightarrow> None
             | d # rest' \<Rightarrow>
                 if d = CHR '']'' then Some (JArray [], rest')
                 else parseElements n [] (d # rest'))
          else if c = CHR 0x22 then
            (case parseStringBody rest of
               None \<Rightarrow> None
             | Some (s, rest') \<Rightarrow> Some (JString s, rest'))
          else if take 4 (c # rest) = ''true'' then Some (JBool True, drop 4 (c # rest))
          else if take 5 (c # rest) = ''false'' then Some (JBool False, drop 5 (c # rest))
          else if take 4 (c # rest) = ''null'' then Some (JNull, drop 4 (c # rest))
          else parseNumber (c # rest))"
| "parseElements 0 acc cs = None"
| "parseElements (Suc n) acc cs =
     (case parseValue n cs of
        None \<Rightarrow> None
      | Some (v, rest) \<Rightarrow>
          (case skipWs rest of
             [] \<Rightarrow> None
           | c # rest' \<Rightarrow>
               if c = CHR '']'' then Some (JArray (acc @ [v]), rest')
               else if c = CHR '','' then parseElements n (acc @ [v]) rest'
               else None))"
| "parseMembers 0 acc cs = None"
| "parseMembers (Suc n) acc cs =
     (case skipWs cs of
        [] \<Rightarrow> None
      | q # afterQuote \<Rightarrow>
          if q \<noteq> CHR 0x22 then None
          else
            (case parseStringBody afterQuote of
               None \<Rightarrow> None
             | Some (k, afterKey) \<Rightarrow>
                 (case skipWs afterKey of
                    [] \<Rightarrow> None
                  | colon # afterColon \<Rightarrow>
                      if colon \<noteq> CHR '':'' then None
                      else
                        (case parseValue n afterColon of
                           None \<Rightarrow> None
                         | Some (v, rest) \<Rightarrow>
                             (case skipWs rest of
                                [] \<Rightarrow> None
                              | c # rest' \<Rightarrow>
                                  if c = CHR ''}'' then Some (JObject (setProperty acc k v), rest')
                                  else if c = CHR '','' then parseMembers n (setProperty acc k v) rest'
                                  else None)))))"

definition JSON_parse :: "string \<Rightarrow> jsvalue option" where
  "JSON_parse text =
     (case parseValue (Suc (length text)) text of
        None \<Rightarrow> None
      | Some (v, rest) \<Rightarrow> if skipWs rest = [] then Some v else None)"


section \<open>types.ts\<close>

datatype AgentTaskStatus = Pending | Running | Succeeded | Failed

datatype AgentStepStatus = StepPending | StepRunning | StepSucceeded | StepFailed

datatype ObservationResult = Success | Error

datatype FinishStatus = FinishSuccess | FinishFailed

record AgentObservation =
  obs_result :: ObservationResult
  obs_message :: string
  obs_data :: "jsrecord option"

record AgentStep =
  step_id :: string
  step_index :: nat
  step_status :: AgentStepStatus
  step_action :: "AgentAction option"
  step_observation :: "AgentObservation option"
  step_modelThought :: "string option"

record AgentTaskContext =
  ctx_url :: "string option"
  ctx_pageTitle :: "string option"
  ctx_pageDescription :: "string option"
  ctx_startingHtmlExcerpt :: "string option"

record AgentTask =
  task_id :: string
  task_goal :: string
  task_status :: AgentTaskStatus
  task_steps :: "AgentStep list"
  task_summary :: "string option"
  task_context :: "AgentTaskContext option"
  task_lastError :: "string option"

record Finish =
  finish_status :: FinishStatus
  finish_summary :: string

record AgentPlanOutput =
  plan_thought :: string
  plan_action :: "AgentAction option"
  plan_finish :: "Finish option"
  plan_caution :: "string option"

record ActionExecutionResult =
  exec_observation :: AgentObservation
  exec_didTerminate :: "bool option"
  exec_summary :: "string option"

record ExecutorPayload =
  payload_task :: AgentTask
  payload_step :: AgentStep
  payload_action :: AgentAction

record RuntimeConfig =
  cfg_maxSteps :: "nat option"
  cfg_maxParallelTasks :: "nat option"
  cfg_maxWaitMs :: "nat option"

text \<open>
  \<open>main/guardrails/config\<close> (the constant \<open>agentSafetyConfig\<close>) is not among the
  sources; its value is a parameter of the functions that read it.
\<close>

record AgentSafetyConfig =
  safety_maxSteps :: nat
  safety_maxParallelTasks :: nat
  safety_maxWaitMs :: nat
  blockedOrigins :: "string list"
  restrictedSelectors :: "string list"

section \<open>Events of the shared emitter\<close>

text \<open>Each event is its name together with its payload.\<close>

datatype AgentEvent =
    TaskCreated AgentTask
  | TaskUpdated string AgentTask
  | TaskStarted string
  | PlanningStarted string nat
  | PlanningFinished string string "AgentAction option" "Finish option"
  | StepCreated string AgentStep
  | StepExecuting string string AgentAction
  | StepUpdated string string AgentStep
  | TaskCompleted string string
  | TaskError string string
  | TaskFailed string string

fun eventName :: "AgentEvent \<Rightarrow> string" where
  "eventName (TaskCreated t) = ''task-created''"
| "eventName (TaskUpdated i t) = ''task-updated''"
| "eventName (TaskStarted i) = ''task-started''"
| "eventName (PlanningStarted i n) = ''planning-started''"
| "eventName (PlanningFinished i th a f) = ''planning-finished''"
| "eventName (StepCreated i s) = ''step-created''"
| "eventName (StepExecuting i sid a) = ''step-executing''"
| "eventName (StepUpdated i sid s) = ''step-updated''"
| "eventName (TaskCompleted i s) = ''task-completed''"
| "eventName (TaskError i e) = ''task-error''"
| "eventName (TaskFailed i e) = ''task-failed''"

section \<open>AgentModelClient.ts\<close>

record PlanInput =
  pi_task :: AgentTask
  pi_recentMemory :: "MemoryEntry list"
  pi_tools :: "AgentToolDefinition list"
  pi_stepCount :: nat

text \<open>
  \<open>plan(input)\<close>: \<open>generateText\<close> is the call to the language model, whose outcome
  (the text, or a thrown error) is the argument \<open>generated\<close>; the prompt built from
  the input only feeds that call. The unchecked cast \<open>parsed as AgentPlanOutput\<close> is
  the parameter \<open>asPlanOutput\<close>.
\<close>

definition plan ::
  "(string \<Rightarrow> jsvalue option) \<Rightarrow> (jsvalue \<Rightarrow> AgentPlanOutput) \<Rightarrow> bool \<Rightarrow>
   thrown + string \<Rightarrow> thrown + AgentPlanOutput" where
  "plan jsonParse asPlanOutput modelReady generated =
    (if \<not> modelReady
     then Inl (JsError ''Agent model is not ready. Set the appropriate API key.'')
     else
       (case generated of
          Inl e \<Rightarrow> Inl e
        | Inr text \<Rightarrow>
            (let parsed = parseJsonFromText jsonParse text
             in if \<not> truthy parsed
                then Inl (JsError
                  ''Agent model returned an unparsable response. Expected JSON payload.'')
                else Inr (asPlanOutput parsed))))"


section \<open>AgentOrchestrator.ts\<close>

text \<open>
  The orchestrator mutates the task it was handed, the shared memory and (by emitting)
  the listeners' view; the state it works on is these three. The list of events holds
  everything emitted so far, oldest first.
\<close>

record OrchState =
  o_task :: AgentTask
  o_memory :: AgentMemory
  o_events :: "AgentEvent list"

text \<open>
  The dependencies: the planner (\<open>modelClient.plan\<close>) and the executor are external
  and may answer differently each time, so both take the number of the loop iteration
  that calls them; \<open>Inl\<close> is a rejected promise. \<open>stringify\<close> is the built-in
  \<open>JSON.stringify\<close>, \<open>randomUUID\<close> the identifier drawn in that iteration, and
  \<open>maxSteps\<close> is \<open>config.maxSteps ?? DEFAULT_MAX_STEPS\<close>, a count of steps.
\<close>

record OrchestratorDependencies =
  planner :: "nat \<Rightarrow> PlanInput \<Rightarrow> thrown + AgentPlanOutput"
  executor :: "nat \<Rightarrow> ExecutorPayload \<Rightarrow> thrown + ActionExecutionResult"
  stringify :: "jsvalue \<Rightarrow> string"
  randomUUID :: "nat \<Rightarrow> string"
  maxSteps :: nat

definition emit :: "OrchState \<Rightarrow> AgentEvent \<Rightarrow> OrchState" where
  "emit s e = s\<lparr>o_events := o_events s @ [e]\<rparr>"

definition rememberEntry :: "OrchState \<Rightarrow> MemoryEntry \<Rightarrow> OrchState" where
  "rememberEntry s entry =
     s\<lparr>o_memory := remember (o_memory s) (task_id (o_task s)) entry\<rparr>"

definition upperResult :: "ObservationResult \<Rightarrow> string" where
  "upperResult r = (case r of Success \<Rightarrow> ''SUCCESS'' | Error \<Rightarrow> ''ERROR'')"

text \<open>\<open>AgentMemory.summarise\<close>, on the orchestrator's state: it appends and returns.\<close>

definition summaryText :: "(jsvalue \<Rightarrow> string) \<Rightarrow> AgentTask \<Rightarrow> AgentObservation \<Rightarrow> string" where
  "summaryText str task observation =
    (let parts = [''Goal: '' @ task_goal task,
                  ''Result: '' @ upperResult (obs_result observation),
                  obs_message observation];
         parts' =
           (case obs_data observation of
              None \<Rightarrow> parts
            | Some d \<Rightarrow>
                (let serialised = joinWith [CHR 0x0A] (map (\<lambda>kv. fst kv @ '': '' @ str (snd kv)) d)
                 in if length serialised > 0
                    then parts @ [[CHR 0x0A] @ ''Additional Data:'' @ [CHR 0x0A] @ serialised]
                    else parts))
     in joinWith [CHR 0x0A] parts')"

definition summarise ::
  "(jsvalue \<Rightarrow> string) \<Rightarrow> OrchState \<Rightarrow> AgentObservation \<Rightarrow> string \<times> OrchState" where
  "summarise str s observation =
    (let summary = summaryText str (o_task s) observation
     in (summary,
         rememberEntry s
           \<lparr>entry_type = SummaryEntry, entry_content = summary, entry_metadata = None\<rparr>))"

text \<open>The argument \<open>planStep\<close> hands to \<open>modelClient.plan\<close>.\<close>

definition planInput :: "OrchState \<Rightarrow> PlanInput" where
  "planInput s =
     \<lparr>pi_task = o_task s,
      pi_recentMemory = getRecent (o_memory s) (task_id (o_task s)) 16,
      pi_tools = getTools,
      pi_stepCount = length (task_steps (o_task s))\<rparr>"

definition planStep ::
  "OrchestratorDependencies \<Rightarrow> nat \<Rightarrow> OrchState \<Rightarrow> OrchState \<times> (thrown + AgentPlanOutput)" where
  "planStep d i s =
    (let task = o_task s;
         recentMemory = getRecent (o_memory s) (task_id task) 16;
         s1 = emit s (PlanningStarted (task_id task) (length recentMemory))
     in case planner d i (planInput s) of
          Inl e \<Rightarrow> (s1, Inl e)
        | Inr p \<Rightarrow>
            (emit
               (rememberEntry s1
                  \<lparr>entry_type = Thought, entry_content = plan_thought p,
                   entry_metadata = None\<rparr>)
               (PlanningFinished (task_id task) (plan_thought p) (plan_action p) (plan_finish p)),
             Inr p))"

definition createStep ::
  "OrchestratorDependencies \<Rightarrow> nat \<Rightarrow> OrchState \<Rightarrow> AgentPlanOutput \<Rightarrow> AgentStep \<times> OrchState" where
  "createStep d i s p =
    (let task = o_task s;
         step = \<lparr>step_id = randomUUID d i,
                 step_index = length (task_steps task),
                 step_status = StepRunning,
                 step_action = plan_action p,
                 step_observation = None,
                 step_modelThought = Some (plan_thought p)\<rparr>;
         s1 = s\<lparr>o_task := task\<lparr>task_steps := task_steps task @ [step]\<rparr>\<rparr>
     in (step, emit s1 (StepCreated (task_id task) step)))"

definition executeStep ::
  "OrchestratorDependencies \<Rightarrow> nat \<Rightarrow> OrchState \<Rightarrow> AgentStep \<Rightarrow> AgentAction \<Rightarrow>
   OrchState \<times> (thrown + ActionExecutionResult)" where
  "executeStep d i s step action =
    (let s1 = emit s (StepExecuting (task_id (o_task s)) (step_id step) action);
         s2 = rememberEntry s1
                \<lparr>entry_type = ActionEntry,
                 entry_content =
                   action_type action @ '' -> '' @ stringify d (JObject (action_params action)),
                 entry_metadata = None\<rparr>
     in (s2, executor d i \<lparr>payload_task = o_task s2, payload_step = step,
                           payload_action = action\<rparr>))"

text \<open>
  \<open>finaliseStep\<close> writes through the reference to the step, which is the element of
  \<open>task.steps\<close> at the step's index.
\<close>

definition finaliseStep :: "OrchState \<Rightarrow> AgentStep \<Rightarrow> AgentObservation \<Rightarrow> OrchState" where
  "finaliseStep s step observation =
    (let step' = step\<lparr>step_status :=
                        (if obs_result observation = Success then StepSucceeded else StepFailed),
                      step_observation := Some observation\<rparr>;
         task = o_task s;
         s1 = s\<lparr>o_task := task\<lparr>task_steps := (task_steps task)[step_index step := step']\<rparr>\<rparr>;
         s2 = rememberEntry s1
                \<lparr>entry_type = ObservationEntry,
                 entry_content = upperResult (obs_result observation) @ '': '' @ obs_message observation,
                 entry_metadata = obs_data observation\<rparr>
     in emit s2 (StepUpdated (task_id task) (step_id step) step'))"

definition finishTask :: "OrchState \<Rightarrow> string \<Rightarrow> OrchState" where
  "finishTask s summary =
    (let s1 = s\<lparr>o_task := (o_task s)\<lparr>task_status := Succeeded, task_summary := Some summary\<rparr>\<rparr>;
         s2 = emit s1 (TaskCompleted (task_id (o_task s)) summary)
     in rememberEntry s2
          \<lparr>entry_type = SummaryEntry, entry_content = summary, entry_metadata = None\<rparr>)"

definition completeFromFinish :: "OrchState \<Rightarrow> string \<Rightarrow> Finish \<Rightarrow> OrchState" where
  "completeFromFinish s summary finish =
    (if finish_status finish = FinishSuccess then finishTask s summary
     else
       emit (s\<lparr>o_task := (o_task s)\<lparr>task_status := Failed,
                                      task_lastError := Some summary,
                                      task_summary := Some summary\<rparr>\<rparr>)
            (TaskFailed (task_id (o_task s)) summary))"


text \<open>
  The body of the loop's \<open>try\<close> block, in the order of its statements. Each part
  yields the state it left behind and either the thrown value, or whether \<open>run\<close>
  returns (\<open>True\<close>) or goes on to the next iteration (\<open>False\<close>). Mutations made
  before a throw stay.
\<close>

text \<open>\<open>if (plan.caution) { remember ... }\<close>: an empty string is falsy.\<close>

definition noteCaution :: "OrchState \<Rightarrow> AgentPlanOutput \<Rightarrow> OrchState" where
  "noteCaution s p =
    (case plan_caution p of
       None \<Rightarrow> s
     | Some c \<Rightarrow>
         if c = [] then s
         else rememberEntry s
                \<lparr>entry_type = Thought, entry_content = ''Safety note: '' @ c,
                 entry_metadata = None\<rparr>)"

text \<open>
  \<open>finishTask(task, execution.summary ?? this.memory.summarise(task, observation))\<close>:
  the summary is synthesised, and remembered, only when the executor gave none.
\<close>

definition concludeTask ::
  "OrchestratorDependencies \<Rightarrow> OrchState \<Rightarrow> ActionExecutionResult \<Rightarrow> OrchState" where
  "concludeTask d s execution =
    (case exec_summary execution of
       Some summary \<Rightarrow> finishTask s summary
     | None \<Rightarrow>
        (case summarise (stringify d) s (exec_observation execution) of
           (summary, s') \<Rightarrow> finishTask s' summary))"

text \<open>From \<open>createStep\<close> to the check of \<open>didTerminate\<close>, for a validated action.\<close>

definition actOn ::
  "OrchestratorDependencies \<Rightarrow> nat \<Rightarrow> OrchState \<Rightarrow> AgentPlanOutput \<Rightarrow> AgentAction \<Rightarrow>
   OrchState \<times> (thrown + bool)" where
  "actOn d i s p action =
    (case createStep d i s p of
       (step, s3) \<Rightarrow>
        (case executeStep d i s3 step action of
           (s4, Inl e) \<Rightarrow> (s4, Inl e)
         | (s4, Inr execution) \<Rightarrow>
            (let s5 = finaliseStep s4 step (exec_observation execution)
             in if exec_didTerminate execution = Some True
                then (concludeTask d s5 execution, Inr True)
                else (s5, Inr False))))"

text \<open>The finish short-circuit, the missing action and the validation.\<close>

definition invalidActionMessage :: "validation \<Rightarrow> string" where
  "invalidActionMessage v =
     ''Invalid action returned: '' @
       (case issues v of None \<Rightarrow> ''undefined'' | Some found \<Rightarrow> joinWith '', '' found)"

definition followPlan ::
  "OrchestratorDependencies \<Rightarrow> nat \<Rightarrow> OrchState \<Rightarrow> AgentPlanOutput \<Rightarrow>
   OrchState \<times> (thrown + bool)" where
  "followPlan d i s p =
    (case plan_finish p of
       Some f \<Rightarrow> (completeFromFinish s (finish_summary f) f, Inr True)
     | None \<Rightarrow>
        (case plan_action p of
           None \<Rightarrow>
             (s, Inl (JsError ''Agent returned neither an action nor a finish directive.''))
         | Some action \<Rightarrow>
            (case validateAction action of
               Inl e \<Rightarrow> (s, Inl e)
             | Inr actionValidation \<Rightarrow>
                if \<not> ok actionValidation
                then (s, Inl (JsError (invalidActionMessage actionValidation)))
                else actOn d i s p action)))"

definition tryBlock ::
  "OrchestratorDependencies \<Rightarrow> nat \<Rightarrow> OrchState \<Rightarrow> OrchState \<times> (thrown + bool)" where
  "tryBlock d i s =
    (case planStep d i s of
       (s1, Inl e) \<Rightarrow> (s1, Inl e)
     | (s1, Inr p) \<Rightarrow> followPlan d i (noteCaution s1 p) p)"

text \<open>The \<open>catch\<close> clause of the loop.\<close>

definition errorMessage :: "thrown \<Rightarrow> string" where
  "errorMessage e = (case e of JsError m \<Rightarrow> m | NonError \<Rightarrow> ''Unknown agent error'')"

definition catchBlock :: "OrchState \<Rightarrow> thrown \<Rightarrow> OrchState" where
  "catchBlock s e =
    (let message = errorMessage e;
         s1 = s\<lparr>o_task := (o_task s)\<lparr>task_lastError := Some message\<rparr>\<rparr>;
         s2 = rememberEntry s1
                \<lparr>entry_type = ObservationEntry, entry_content = ''Error: '' @ message,
                 entry_metadata = None\<rparr>;
         s3 = emit s2 (TaskError (task_id (o_task s)) message);
         s4 = s3\<lparr>o_task := (o_task s3)\<lparr>task_status := Failed\<rparr>\<rparr>
     in emit s4 (TaskFailed (task_id (o_task s)) message))"

text \<open>One iteration: the state after it, and whether \<open>run\<close> has returned.\<close>

definition iteration :: "OrchestratorDependencies \<Rightarrow> nat \<Rightarrow> OrchState \<Rightarrow> OrchState \<times> bool" where
  "iteration d i s =
    (case tryBlock d i s of
       (s', Inl e) \<Rightarrow> (catchBlock s' e, True)
     | (s', Inr returned) \<Rightarrow> (s', returned))"

text \<open>The code after the loop, reached when the step budget is used up.\<close>

definition maxStepMessage :: string where
  "maxStepMessage = ''Max step count reached without completion.''"

definition budgetExhausted :: "OrchestratorDependencies \<Rightarrow> OrchState \<Rightarrow> OrchState" where
  "budgetExhausted d s =
    (case summarise (stringify d) s
            \<lparr>obs_result = Error, obs_message = maxStepMessage, obs_data = None\<rparr> of
       (summary, s1) \<Rightarrow>
         completeFromFinish s1 summary
           \<lparr>finish_status = FinishFailed, finish_summary = summary\<rparr>)"

text \<open>\<open>for (let iteration = 0; iteration < maxSteps; iteration++)\<close>, from \<open>i\<close> on.\<close>

function runLoop :: "OrchestratorDependencies \<Rightarrow> nat \<Rightarrow> OrchState \<Rightarrow> OrchState" where
  "runLoop d i s =
    (if i < maxSteps d
     then (case iteration d i s of
             (s', True) \<Rightarrow> s'
           | (s', False) \<Rightarrow> runLoop d (i + 1) s')
     else budgetExhausted d s)"
  by pat_completeness auto
termination
  by (relation "measure (\<lambda>(d, i, s). maxSteps d - i)") auto

text \<open>
  The first \<open>n\<close> iterations from \<open>i\<close> on, stopping at the first one that returns:
  the state reached, and whether \<open>run\<close> has returned.
\<close>

fun iterations :: "OrchestratorDependencies \<Rightarrow> nat \<Rightarrow> nat \<Rightarrow> OrchState \<Rightarrow> OrchState \<times> bool" where
  "iterations d i 0 s = (s, False)"
| "iterations d i (Suc n) s =
     (case iteration d i s of
        (s', True) \<Rightarrow> (s', True)
      | (s', False) \<Rightarrow> iterations d (Suc i) n s')"

text \<open>
  \<open>run(task)\<close>. Its first two statements run synchronously inside the caller, before
  the first \<open>await\<close>; they are \<open>runStart\<close>.
\<close>

definition runStart :: "OrchState \<Rightarrow> OrchState" where
  "runStart s =
     emit (s\<lparr>o_task := (o_task s)\<lparr>task_status := Running\<rparr>\<rparr>) (TaskStarted (task_id (o_task s)))"

definition run :: "OrchestratorDependencies \<Rightarrow> OrchState \<Rightarrow> OrchState" where
  "run d s = runLoop d 0 (runStart s)"


declare runLoop.simps [simp del]

section \<open>main/AgentExecutor.ts\<close>

text \<open>
  The browser window and its tabs belong to the host. A window is what \<open>resolveTab\<close>
  reads from it; the operations on a tab (\<open>tab.loadURL\<close>, the polling script of
  \<open>waitForSelector\<close>) and the five handlers that run scripts in the page are the
  host's, given as \<open>Page\<close>. A \<open>Some\<close> from \<open>loadURL\<close> and an \<open>Inl\<close> are
  thrown errors.
\<close>

record 'tab Window =
  activeTab :: "'tab option"
  getTab :: "string \<Rightarrow> 'tab option"

record 'tab Page =
  loadURL :: "'tab \<Rightarrow> string \<Rightarrow> thrown option"
  waitForSelector :: "'tab \<Rightarrow> string \<Rightarrow> thrown + bool"
  pageHandler :: "string \<Rightarrow> 'tab Window \<Rightarrow> jsrecord \<Rightarrow> thrown + ActionExecutionResult"

definition resolveTab :: "'tab Window \<Rightarrow> jsvalue \<Rightarrow> 'tab option" where
  "resolveTab window tabId =
    (case tabId of
       JString t \<Rightarrow>
         if length t > 0
         then (case getTab window t of Some specific \<Rightarrow> Some specific | None \<Rightarrow> activeTab window)
         else activeTab window
     | _ \<Rightarrow> activeTab window)"

definition observed :: "ObservationResult \<Rightarrow> string \<Rightarrow> jsrecord option \<Rightarrow> ActionExecutionResult" where
  "observed r m d =
     \<lparr>exec_observation = \<lparr>obs_result = r, obs_message = m, obs_data = d\<rparr>,
      exec_didTerminate = None, exec_summary = None\<rparr>"

definition stringParam :: "jsrecord \<Rightarrow> string \<Rightarrow> string option" where
  "stringParam params key = (case getParam params key of JString s \<Rightarrow> Some s | _ \<Rightarrow> None)"

definition blockedMessage :: "string \<Rightarrow> string" where
  "blockedMessage url =
     ''Navigation to URLs starting with '' @ dquote (takeWhile (\<lambda>c. c \<noteq> CHR '':'') url @ '':'')
       @ '' is blocked by safety policy.''"

definition handleNavigate ::
  "AgentSafetyConfig \<Rightarrow> 'tab Page \<Rightarrow> 'tab Window \<Rightarrow> jsrecord \<Rightarrow> thrown + ActionExecutionResult" where
  "handleNavigate safety page window params =
    (case resolveTab window (getParam params ''tabId'') of
       None \<Rightarrow> Inr (observed Error ''No active tab available for navigation.'' None)
     | Some tab \<Rightarrow>
        (case stringParam params ''url'' of
           None \<Rightarrow> Inl (JsError ''navigate action requires a URL string.'')
         | Some url \<Rightarrow>
            if url = [] then Inl (JsError ''navigate action requires a URL string.'')
            else if list_ex (\<lambda>prefix. startsWith url prefix) (blockedOrigins safety)
            then Inl (JsError (blockedMessage url))
            else
             (case loadURL page tab url of
                Some e \<Rightarrow> Inl e
              | None \<Rightarrow>
                 (let waitFor = (case stringParam params ''waitFor'' of
                                   None \<Rightarrow> None
                                 | Some w \<Rightarrow> if length (trim w) > 0 then Some w else None);
                      navigated = Inr (observed Success (''Navigated to '' @ url @ ''.'')
                                    (Some [(''url'', JString url)]))
                  in case waitFor of
                       None \<Rightarrow> navigated
                     | Some w \<Rightarrow>
                        (case waitForSelector page tab w of
                           Inl e \<Rightarrow> Inl e
                         | Inr found \<Rightarrow>
                            if \<not> found
                            then Inr (observed Error
                                   (''Navigated to '' @ url @ '', but selector '' @ dquote w
                                      @ '' not found within timeout.'') None)
                            else navigated)))))"

text \<open>
  The executor built by \<open>createAgentExecutor(window)\<close>: the \<open>switch\<close> inside the
  \<open>try\<close>, and the \<open>catch\<close> that turns anything thrown into an observation.
\<close>

definition dispatchAction ::
  "AgentSafetyConfig \<Rightarrow> 'tab Page \<Rightarrow> 'tab Window \<Rightarrow> AgentAction \<Rightarrow> thrown + ActionExecutionResult" where
  "dispatchAction safety page window action =
    (let t = action_type action; params = action_params action
     in if t = ''navigate'' then handleNavigate safety page window params
        else if t \<in> set [''click'', ''type'', ''wait'', ''scroll'', ''extract'']
        then pageHandler page t window params
        else if t = ''finish''
        then Inr ((observed Success ''Task marked as finished.'' None)
                    \<lparr>exec_didTerminate := Some True\<rparr>)
        else Inr ((observed Error (''Unsupported action type '' @ t @ ''.'') None)
                    \<lparr>exec_didTerminate := Some True\<rparr>))"

definition createAgentExecutor ::
  "AgentSafetyConfig \<Rightarrow> 'tab Page \<Rightarrow> 'tab Window \<Rightarrow> ExecutorPayload \<Rightarrow> ActionExecutionResult" where
  "createAgentExecutor safety page window payload =
    (case dispatchAction safety page window (payload_action payload) of
       Inr result \<Rightarrow> result
     | Inl e \<Rightarrow>
         observed Error (case e of JsError m \<Rightarrow> m | NonError \<Rightarrow> ''Unknown executor error.'') None)"


section \<open>AgentRuntime.ts\<close>

text \<open>
  The runtime owns the task store, the queue, the set of active task ids, the memory
  and the emitter. The queue items hold references to the stored tasks (and the
  callbacks of the promise \<open>enqueue\<close> waits on), so the queue is kept as task ids.
  \<open>activeTaskIds\<close> is a \<open>Set\<close>: a list without repetition, in insertion order.
\<close>

record RuntimeState =
  rt_tasks :: "string \<rightharpoonup> AgentTask"
  rt_queue :: "string list"
  rt_activeTaskIds :: "string list"
  rt_memory :: AgentMemory
  rt_events :: "AgentEvent list"

record Runtime =
  rt_config :: RuntimeConfig
  rt_safety :: AgentSafetyConfig
  rt_modelReady :: bool
  rt_planner :: "nat \<Rightarrow> PlanInput \<Rightarrow> thrown + AgentPlanOutput"
  rt_executor :: "nat \<Rightarrow> ExecutorPayload \<Rightarrow> thrown + ActionExecutionResult"
  rt_stringify :: "jsvalue \<Rightarrow> string"
  rt_randomUUID :: "nat \<Rightarrow> string"

text \<open>
  The constructor's \<open>this.config\<close>: the safety defaults overridden by the argument.
  A field is either absent (\<open>None\<close>) or a number; a field present with the value
  \<open>undefined\<close>, which the spread of the source lets erase the default, is outside
  the model.
\<close>

definition mergeConfig :: "AgentSafetyConfig \<Rightarrow> RuntimeConfig option \<Rightarrow> RuntimeConfig" where
  "mergeConfig safety config =
    (let given = (case config of
                    None \<Rightarrow> \<lparr>cfg_maxSteps = None, cfg_maxParallelTasks = None, cfg_maxWaitMs = None\<rparr>
                  | Some c \<Rightarrow> c)
     in \<lparr>cfg_maxSteps =
           Some (case cfg_maxSteps given of None \<Rightarrow> safety_maxSteps safety | Some n \<Rightarrow> n),
         cfg_maxParallelTasks =
           Some (case cfg_maxParallelTasks given of
                   None \<Rightarrow> safety_maxParallelTasks safety | Some n \<Rightarrow> n),
         cfg_maxWaitMs =
           Some (case cfg_maxWaitMs given of None \<Rightarrow> safety_maxWaitMs safety | Some n \<Rightarrow> n)\<rparr>)"

text \<open>\<open>this.config.maxParallelTasks ?? 1\<close>\<close>

definition parallelLimit :: "Runtime \<Rightarrow> nat" where
  "parallelLimit rt = (case cfg_maxParallelTasks (rt_config rt) of None \<Rightarrow> 1 | Some n \<Rightarrow> n)"

text \<open>The orchestrator the constructor builds over the runtime's own parts.\<close>

definition orchestrator :: "Runtime \<Rightarrow> OrchestratorDependencies" where
  "orchestrator rt =
     \<lparr>planner = rt_planner rt,
      executor = rt_executor rt,
      stringify = rt_stringify rt,
      randomUUID = rt_randomUUID rt,
      maxSteps = (case cfg_maxSteps (rt_config rt) of
                    None \<Rightarrow> safety_maxSteps (rt_safety rt)
                  | Some n \<Rightarrow> n)\<rparr>"

definition DEFAULT_EXECUTOR :: "ExecutorPayload \<Rightarrow> thrown + ActionExecutionResult" where
  "DEFAULT_EXECUTOR payload =
     Inr \<lparr>exec_observation =
            \<lparr>obs_result = Error,
             obs_message = ''Agent executor not connected. Please register an executor bridge.'',
             obs_data = None\<rparr>,
          exec_didTerminate = Some True,
          exec_summary = Some ''Stopped because no executor bridge is available.''\<rparr>"

definition initialState :: RuntimeState where
  "initialState =
     \<lparr>rt_tasks = Map.empty, rt_queue = [], rt_activeTaskIds = [],
      rt_memory = Map.empty, rt_events = []\<rparr>"

text \<open>Running orchestrator code on a stored task, with the shared memory and emitter.\<close>

definition onTask :: "(OrchState \<Rightarrow> OrchState) \<Rightarrow> string \<Rightarrow> RuntimeState \<Rightarrow> RuntimeState" where
  "onTask f taskId st =
    (case rt_tasks st taskId of
       None \<Rightarrow> st
     | Some task \<Rightarrow>
        (let s = f \<lparr>o_task = task, o_memory = rt_memory st, o_events = rt_events st\<rparr>
         in st\<lparr>rt_tasks := (rt_tasks st)(taskId \<mapsto> o_task s),
               rt_memory := o_memory s,
               rt_events := o_events s\<rparr>))"

definition setAdd :: "string list \<Rightarrow> string \<Rightarrow> string list" where
  "setAdd xs x = (if x \<in> set xs then xs else xs @ [x])"

definition setDelete :: "string list \<Rightarrow> string \<Rightarrow> string list" where
  "setDelete xs x = filter (\<lambda>y. y \<noteq> x) xs"

text \<open>
  \<open>drainQueue\<close>. The call \<open>this.runTask(task)\<close> starts \<open>orchestrator.run\<close>,
  which sets the task running and emits \<open>task-started\<close> (\<open>runStart\<close>) and, in
  the source, runs on through the first \<open>getRecent\<close> and \<open>planning-started\<close> to
  the call of the planner before it suspends. The model cuts the run after
  \<open>runStart\<close>: the rest of the run and the \<open>then\<close>/\<open>catch\<close> callbacks happen
  later, as calls of their own (\<open>RuntimeCall\<close> below), each in one piece. The events
  of one task keep their order; where they fall among the events of other tasks is not
  that of the source.
\<close>

function drainQueue :: "nat \<Rightarrow> RuntimeState \<Rightarrow> RuntimeState" where
  "drainQueue limit st =
    (if length (rt_activeTaskIds st) < limit \<and> length (rt_queue st) > 0
     then
       (let taskId = hd (rt_queue st);
            st1 = st\<lparr>rt_queue := tl (rt_queue st)\<rparr>;
            st2 = st1\<lparr>rt_activeTaskIds := setAdd (rt_activeTaskIds st1) taskId\<rparr>
        in drainQueue limit (onTask runStart taskId st2))
     else st)"
  by pat_completeness auto
termination
  by (relation "measure (\<lambda>(limit, st). length (rt_queue st))")
     (auto simp: onTask_def Let_def split: option.splits)

declare drainQueue.simps [simp del]

definition enqueue :: "Runtime \<Rightarrow> string \<Rightarrow> RuntimeState \<Rightarrow> RuntimeState" where
  "enqueue rt taskId st =
     drainQueue (parallelLimit rt) (st\<lparr>rt_queue := rt_queue st @ [taskId]\<rparr>)"

text \<open>
  \<open>createTask(goal, context)\<close>; \<open>uuid\<close> is the identifier \<open>randomUUID()\<close> draws. A
  throw leaves the state as it was.
\<close>

definition createTask ::
  "Runtime \<Rightarrow> string \<Rightarrow> AgentTaskContext option \<Rightarrow> string \<Rightarrow> RuntimeState \<Rightarrow>
   thrown + RuntimeState" where
  "createTask rt goal context uuid st =
    (if goal = [] \<or> length (trim goal) = 0
     then Inl (JsError ''Goal is required to create a task.'')
     else if \<not> rt_modelReady rt
     then Inl (JsError
            ''Agent model is not initialised. Configure the AGENT_MODEL/API key first.'')
     else
      (let task = \<lparr>task_id = uuid, task_goal = goal, task_status = Pending, task_steps = [],
                   task_summary = None, task_context = context, task_lastError = None\<rparr>;
           st1 = st\<lparr>rt_tasks := (rt_tasks st)(uuid \<mapsto> task)\<rparr>;
           st2 = st1\<lparr>rt_events := rt_events st1 @ [TaskCreated task]\<rparr>
       in Inr (enqueue rt uuid st2)))"

text \<open>The \<open>catch\<close> clause of \<open>runTask\<close>, entered when \<open>orchestrator.run\<close> throws.\<close>

definition runTaskCatch :: "string \<Rightarrow> thrown \<Rightarrow> RuntimeState \<Rightarrow> RuntimeState" where
  "runTaskCatch taskId e st =
    (case rt_tasks st taskId of
       None \<Rightarrow> st
     | Some task \<Rightarrow>
        (let lastError = (case e of JsError m \<Rightarrow> m | NonError \<Rightarrow> ''Unknown orchestrator error.'');
             task' = task\<lparr>task_status := Failed, task_lastError := Some lastError\<rparr>
         in st\<lparr>rt_tasks := (rt_tasks st)(taskId \<mapsto> task'),
               rt_events := rt_events st @ [TaskFailed taskId lastError]\<rparr>))"

text \<open>
  The callbacks \<open>drainQueue\<close> attaches to the promise of \<open>runTask\<close>: both delete the
  id, settle the promise of \<open>enqueue\<close> and drain again.
\<close>

definition runSettled :: "Runtime \<Rightarrow> string \<Rightarrow> RuntimeState \<Rightarrow> RuntimeState" where
  "runSettled rt taskId st =
     drainQueue (parallelLimit rt)
       (st\<lparr>rt_activeTaskIds := setDelete (rt_activeTaskIds st) taskId\<rparr>)"

text \<open>
  JavaScript runs each piece of code to completion. What can happen to a runtime is a
  sequence of such pieces: a call of \<open>createTask\<close> (with a fresh id); the rest of an
  active task's orchestration, which returns; an exception escaping an active task's
  orchestration into \<open>runTask\<close>; and the callback of a finished \<open>runTask\<close>. A call
  that cannot happen in the state leaves it unchanged.
\<close>

datatype RuntimeCall =
    CreateTask string "AgentTaskContext option" string
  | RunReturns string
  | RunThrows string thrown
  | RunSettled string

definition statusOf :: "RuntimeState \<Rightarrow> string \<Rightarrow> AgentTaskStatus option" where
  "statusOf st taskId = map_option task_status (rt_tasks st taskId)"

fun runtimeStep :: "Runtime \<Rightarrow> RuntimeCall \<Rightarrow> RuntimeState \<Rightarrow> RuntimeState" where
  "runtimeStep rt (CreateTask goal context uuid) st =
     (if rt_tasks st uuid \<noteq> None then st
      else (case createTask rt goal context uuid st of Inl e \<Rightarrow> st | Inr st' \<Rightarrow> st'))"
| "runtimeStep rt (RunReturns taskId) st =
     (if taskId \<in> set (rt_activeTaskIds st) \<and> statusOf st taskId = Some Running
      then onTask (runLoop (orchestrator rt) 0) taskId st
      else st)"
| "runtimeStep rt (RunThrows taskId e) st =
     (if taskId \<in> set (rt_activeTaskIds st) \<and> statusOf st taskId = Some Running
      then runTaskCatch taskId e st
      else st)"
| "runtimeStep rt (RunSettled taskId) st =
     (if taskId \<in> set (rt_activeTaskIds st) \<and>
         statusOf st taskId \<in> {Some Succeeded, Some Failed}
      then runSettled rt taskId st
      else st)"

inductive reachable :: "Runtime \<Rightarrow> RuntimeState \<Rightarrow> bool" for rt :: Runtime where
  reachable_initial: "reachable rt initialState"
| reachable_step: "reachable rt st \<Longrightarrow> reachable rt (runtimeStep rt call st)"

fun runCalls :: "Runtime \<Rightarrow> RuntimeCall list \<Rightarrow> RuntimeState \<Rightarrow> RuntimeState" where
  "runCalls rt [] st = st"
| "runCalls rt (c # cs) st = runCalls rt cs (runtimeStep rt c st)"

text \<open>What the events tell: the ids in order of creation, and in order of start.\<close>

fun createdIds :: "AgentEvent list \<Rightarrow> string list" where
  "createdIds [] = []"
| "createdIds (TaskCreated t # es) = task_id t # createdIds es"
| "createdIds (e # es) = createdIds es"

fun startedIds :: "AgentEvent list \<Rightarrow> string list" where
  "startedIds [] = []"
| "startedIds (TaskStarted i # es) = i # startedIds es"
| "startedIds (e # es) = startedIds es"

definition runningIds :: "RuntimeState \<Rightarrow> string set" where
  "runningIds st = {taskId. statusOf st taskId = Some Running}"



section \<open>Notions used by the properties\<close>

text \<open>
  A step and its observation agree: no observation while the step runs, and afterwards
  the status that the observation's result decides.
\<close>

definition stepConsistent :: "AgentStep \<Rightarrow> bool" where
  "stepConsistent step =
    (case step_observation step of
       None \<Rightarrow> step_status step = StepRunning
     | Some observation \<Rightarrow>
         step_status step =
           (if obs_result observation = Success then StepSucceeded else StepFailed))"

text \<open>
  The step an iteration creates for a plan, the state in which the executor is called
  with it, and the payload the executor receives.
\<close>

definition newStep :: "OrchestratorDependencies \<Rightarrow> nat \<Rightarrow> OrchState \<Rightarrow> AgentPlanOutput \<Rightarrow> AgentStep" where
  "newStep d i s p = fst (createStep d i s p)"

definition executing ::
  "OrchestratorDependencies \<Rightarrow> nat \<Rightarrow> OrchState \<Rightarrow> AgentPlanOutput \<Rightarrow> AgentAction \<Rightarrow> OrchState" where
  "executing d i s p a = fst (executeStep d i (snd (createStep d i s p)) (newStep d i s p) a)"

definition executorPayload ::
  "OrchestratorDependencies \<Rightarrow> nat \<Rightarrow> OrchState \<Rightarrow> AgentPlanOutput \<Rightarrow> AgentAction \<Rightarrow> ExecutorPayload" where
  "executorPayload d i s p a =
     \<lparr>payload_task = o_task (executing d i s p a), payload_step = newStep d i s p,
      payload_action = a\<rparr>"

text \<open>The state after the plan of iteration \<open>i\<close> has been recorded.\<close>

definition planned :: "OrchestratorDependencies \<Rightarrow> nat \<Rightarrow> OrchState \<Rightarrow> AgentPlanOutput \<Rightarrow> OrchState" where
  "planned d i s p = noteCaution (fst (planStep d i s)) p"

text \<open>A step whose recorded action passed the registry's validation.\<close>

definition validatedStep :: "AgentStep \<Rightarrow> bool" where
  "validatedStep step =
    (case step_action step of
       None \<Rightarrow> False
     | Some a \<Rightarrow> (case validateAction a of Inl e \<Rightarrow> False | Inr v \<Rightarrow> ok v))"

text \<open>
  The events an orchestration emits after its start: none of them announces the
  creation or the start of a task.
\<close>

definition loopEvents :: "AgentEvent list \<Rightarrow> bool" where
  "loopEvents evs = (createdIds evs = [] \<and> startedIds evs = [])"

text \<open>
  The scheduler's bookkeeping: the active set has no more than \<open>limit\<close> ids, all of
  stored tasks; the stored tasks sit under their own ids; the queue holds pending
  tasks, none of them active, none twice; every running task is active; and the tasks
  created so far are those started so far, in the same order, followed by the queue.
\<close>

definition schedulerInvariant :: "nat \<Rightarrow> RuntimeState \<Rightarrow> bool" where
  "schedulerInvariant limit st =
    (distinct (rt_activeTaskIds st) \<and> length (rt_activeTaskIds st) \<le> limit \<and>
     (\<forall>i t. rt_tasks st i = Some t \<longrightarrow> task_id t = i) \<and>
     set (rt_activeTaskIds st) \<subseteq> dom (rt_tasks st) \<and>
     distinct (rt_queue st) \<and> set (rt_queue st) \<inter> set (rt_activeTaskIds st) = {} \<and>
     (\<forall>i \<in> set (rt_queue st). statusOf st i = Some Pending) \<and>
     runningIds st \<subseteq> set (rt_activeTaskIds st) \<and>
     createdIds (rt_events st) = startedIds (rt_events st) @ rt_queue st)"

text \<open>No task waits while there is room for it.\<close>

definition saturated :: "nat \<Rightarrow> RuntimeState \<Rightarrow> bool" where
  "saturated limit st = (\<not> (length (rt_activeTaskIds st) < limit \<and> rt_queue st \<noteq> []))"

text \<open>
  The stored tasks: at most \<open>bound\<close> steps, every step consistent with its
  observation and made from a validated action, and no step before the orchestration
  of the task has run.
\<close>

definition tasksInvariant :: "nat \<Rightarrow> RuntimeState \<Rightarrow> bool" where
  "tasksInvariant bound st =
    (\<forall>i t. rt_tasks st i = Some t \<longrightarrow>
       length (task_steps t) \<le> bound \<and>
       list_all stepConsistent (task_steps t) \<and>
       list_all validatedStep (task_steps t) \<and>
       (task_status t \<in> {Pending, Running} \<longrightarrow> task_steps t = []))"

text \<open>
  The one path of an error in iteration \<open>i\<close>, raised when the iteration has brought
  the state \<open>s\<close> to \<open>raised\<close>: \<open>run\<close> returns; the task is that of \<open>raised\<close> with
  status \<open>failed\<close> and the message as \<open>lastError\<close>; the memory is that of \<open>raised\<close>
  with the observation entry \<open>Error: message\<close> appended to the entries of the task,
  and nothing else changed; the events are those of \<open>raised\<close> followed by
  \<open>task-error\<close> and \<open>task-failed\<close> with the message. The state \<open>raised\<close> itself
  has kept what \<open>s\<close> held: the entries of the task and the events of \<open>s\<close> come
  first, and the entries of every other task are the same.
\<close>

definition failsWith ::
  "OrchestratorDependencies \<Rightarrow> nat \<Rightarrow> OrchState \<Rightarrow> OrchState \<Rightarrow> string \<Rightarrow> bool" where
  "failsWith d i s raised message =
    (case iteration d i s of
       (s', returned) \<Rightarrow>
         returned \<and>
         o_task s' = (o_task raised)\<lparr>task_lastError := Some message, task_status := Failed\<rparr> \<and>
         o_memory s' =
           (o_memory raised)(task_id (o_task s) \<mapsto>
              entriesOf (o_memory raised) (task_id (o_task s)) @
                [\<lparr>entry_type = ObservationEntry, entry_content = ''Error: '' @ message,
                  entry_metadata = None\<rparr>]) \<and>
         o_events s' =
           o_events raised @
             [TaskError (task_id (o_task s)) message, TaskFailed (task_id (o_task s)) message] \<and>
         task_id (o_task raised) = task_id (o_task s) \<and>
         take (length (entriesOf (o_memory s) (task_id (o_task s))))
           (entriesOf (o_memory raised) (task_id (o_task s))) =
           entriesOf (o_memory s) (task_id (o_task s)) \<and>
         (\<forall>other. other \<noteq> task_id (o_task s) \<longrightarrow> o_memory raised other = o_memory s other) \<and>
         take (length (o_events s)) (o_events raised) = o_events s)"

section \<open>Fixtures\<close>

text \<open>
  Stubs for the external parts, after the scenarios of the specification. The safety
  constants stand in for the missing \<open>agentSafetyConfig\<close>; \<open>fixtureStringify\<close>
  stands in for \<open>JSON.stringify\<close> on flat objects of strings.
\<close>

definition fixtureSafety :: AgentSafetyConfig where
  "fixtureSafety =
     \<lparr>safety_maxSteps = 3, safety_maxParallelTasks = 2, safety_maxWaitMs = 10000,
      blockedOrigins = [''file://'', ''chrome://''], restrictedSelectors = []\<rparr>"

definition fixtureStringify :: "jsvalue \<Rightarrow> string" where
  "fixtureStringify v =
    (case v of
       JString s \<Rightarrow> dquote s
     | JObject ps \<Rightarrow>
         ''{'' @ joinWith '','' (map (\<lambda>kv. dquote (fst kv) @ '':'' @
                  (case snd kv of JString s \<Rightarrow> dquote s | _ \<Rightarrow> ''null'')) ps) @ ''}''
     | _ \<Rightarrow> ''null'')"

definition fixtureRuntime ::
  "(nat \<Rightarrow> PlanInput \<Rightarrow> thrown + AgentPlanOutput) \<Rightarrow>
   (nat \<Rightarrow> ExecutorPayload \<Rightarrow> thrown + ActionExecutionResult) \<Rightarrow> Runtime" where
  "fixtureRuntime p e =
     \<lparr>rt_config = mergeConfig fixtureSafety None, rt_safety = fixtureSafety,
      rt_modelReady = True, rt_planner = p, rt_executor = e,
      rt_stringify = fixtureStringify, rt_randomUUID = (\<lambda>i. ''step-uuid'')\<rparr>"

definition fixtureTask :: AgentTask where
  "fixtureTask =
     \<lparr>task_id = ''task-1'', task_goal = ''Open example.com'', task_status = Pending,
      task_steps = [], task_summary = None, task_context = None, task_lastError = None\<rparr>"

definition fixtureState :: OrchState where
  "fixtureState = \<lparr>o_task = fixtureTask, o_memory = Map.empty, o_events = []\<rparr>"

definition actionPlan :: "string \<Rightarrow> string \<Rightarrow> jsrecord \<Rightarrow> AgentPlanOutput" where
  "actionPlan thought t params =
     \<lparr>plan_thought = thought,
      plan_action = Some \<lparr>action_type = t, action_params = params\<rparr>,
      plan_finish = None, plan_caution = None\<rparr>"

definition finishPlan :: "string \<Rightarrow> FinishStatus \<Rightarrow> string \<Rightarrow> AgentPlanOutput" where
  "finishPlan thought status summary =
     \<lparr>plan_thought = thought, plan_action = None,
      plan_finish = Some \<lparr>finish_status = status, finish_summary = summary\<rparr>,
      plan_caution = None\<rparr>"

text \<open>Scenario 1: one navigation, then a successful finish.\<close>

definition happyPlanner :: "nat \<Rightarrow> PlanInput \<Rightarrow> thrown + AgentPlanOutput" where
  "happyPlanner i input =
     (if i = 0
      then Inr (actionPlan ''I will open the site'' ''navigate''
                  [(''url'', JString ''https://example.com'')])
      else Inr (finishPlan ''Done'' FinishSuccess ''Opened example.com''))"

definition happyExecutor :: "nat \<Rightarrow> ExecutorPayload \<Rightarrow> thrown + ActionExecutionResult" where
  "happyExecutor i payload =
     Inr (observed Success ''Navigated to https://example.com''
            (Some [(''url'', JString ''https://example.com'')]))"

text \<open>Scenario 2: a click without its selector.\<close>

definition invalidPlanner :: "nat \<Rightarrow> PlanInput \<Rightarrow> thrown + AgentPlanOutput" where
  "invalidPlanner i input = Inr (actionPlan ''click'' ''click'' [])"

text \<open>A plan that holds both the click without its selector and a finish directive.\<close>

definition finishingInvalidPlanner :: "nat \<Rightarrow> PlanInput \<Rightarrow> thrown + AgentPlanOutput" where
  "finishingInvalidPlanner i input =
     Inr \<lparr>plan_thought = ''click'',
          plan_action = Some \<lparr>action_type = ''click'', action_params = []\<rparr>,
          plan_finish = Some \<lparr>finish_status = FinishSuccess, finish_summary = ''Clicked''\<rparr>,
          plan_caution = None\<rparr>"

text \<open>Scenario 4: the planner scrolls for ever.\<close>

definition scrollPlanner :: "nat \<Rightarrow> PlanInput \<Rightarrow> thrown + AgentPlanOutput" where
  "scrollPlanner i input =
     Inr (actionPlan ''scroll on'' ''scroll'' [(''direction'', JString ''down'')])"

definition scrollExecutor :: "nat \<Rightarrow> ExecutorPayload \<Rightarrow> thrown + ActionExecutionResult" where
  "scrollExecutor i payload = Inr (observed Success ''Scrolled down.'' None)"

text \<open>A planner that answers with text, and an executor that throws.\<close>

definition textPlanner ::
  "string \<Rightarrow> nat \<Rightarrow> PlanInput \<Rightarrow> thrown + AgentPlanOutput" where
  "textPlanner answer i input =
     plan JSON_parse (\<lambda>v. finishPlan ''Done'' FinishSuccess ''parsed'') True (Inr answer)"

definition throwingExecutor :: "nat \<Rightarrow> ExecutorPayload \<Rightarrow> thrown + ActionExecutionResult" where
  "throwingExecutor i payload = Inl (JsError ''tab crashed'')"

text \<open>A navigation to a blocked origin, through the browser's executor.\<close>

definition fixtureWindow :: "nat Window" where
  "fixtureWindow = \<lparr>activeTab = Some 0, getTab = (\<lambda>t. None)\<rparr>"

definition fixturePage :: "nat Page" where
  "fixturePage =
     \<lparr>loadURL = (\<lambda>tab url. None),
      waitForSelector = (\<lambda>tab selector. Inr True),
      pageHandler = (\<lambda>t window params. Inl NonError)\<rparr>"

definition browserExecutor :: "nat \<Rightarrow> ExecutorPayload \<Rightarrow> thrown + ActionExecutionResult" where
  "browserExecutor i payload =
     Inr (createAgentExecutor fixtureSafety fixturePage fixtureWindow payload)"

definition blockedPlanner :: "nat \<Rightarrow> PlanInput \<Rightarrow> thrown + AgentPlanOutput" where
  "blockedPlanner i input =
     (if i = 0
      then Inr (actionPlan ''open the file'' ''navigate''
                  [(''url'', JString ''file:///etc/passwd'')])
      else Inr (finishPlan ''Done'' FinishSuccess ''Gave up on the file''))"

section \<open>Properties of the tool registry\<close>

lemma registered_lookup:
  "(map_of TOOL_DEFINITIONS t \<noteq> None) = (t \<in> set registeredKinds)"
  by (simp add: TOOL_DEFINITIONS_def registeredKinds_def)

lemma registered_not_inherited:
  "t \<in> set registeredKinds \<Longrightarrow> t \<notin> set objectPrototypeKeys"
  by (auto simp: registeredKinds_def objectPrototypeKeys_def)

lemma schema_keys_checked:
  "list_all
     (\<lambda>entry. list_all (\<lambda>rule. fst rule \<notin> set objectPrototypeKeys) (tool_schema (snd entry)))
     TOOL_DEFINITIONS"
  by code_simp

lemma schema_keys_not_inherited:
  assumes "map_of TOOL_DEFINITIONS t = Some tool" "k \<in> fst ` set (tool_schema tool)"
  shows "k \<notin> set objectPrototypeKeys"
proof -
  have "(t, tool) \<in> set TOOL_DEFINITIONS" using assms(1) by (rule map_of_SomeD)
  then have "list_all (\<lambda>rule. fst rule \<notin> set objectPrototypeKeys) (tool_schema tool)"
    using schema_keys_checked unfolding list_all_iff by fastforce
  then show ?thesis using assms(2) unfolding list_all_iff by auto
qed

lemma schemaIssues_empty_iff:
  "(schemaIssues a schema = []) = (\<forall>e \<in> set schema. \<not> isMissing (action_params a) e)"
  by (auto simp: schemaIssues_def filter_empty_conv)

lemma schemaIssues_names_missing:
  "map_of TOOL_DEFINITIONS (action_type a) = Some tool \<Longrightarrow>
   schemaIssues a (tool_schema tool) =
     map (\<lambda>k. missingIssue k (action_type a))
       (filter (\<lambda>k. nullish (getParam (action_params a) k)) (requiredParams (action_type a)))"
  by (simp add: schemaIssues_def requiredParams_def isMissing_def[abs_def] nullish_def
      filter_map o_def)

text \<open>
  On every kind that is not a name inherited from \<open>Object.prototype\<close> the validator
  returns, and rejects exactly the unknown kinds and the actions that leave a required
  parameter out or \<open>null\<close>; the issues name the missing parameters, in schema order.
\<close>

lemma validateAction_returns:
  assumes "action_type a \<notin> set objectPrototypeKeys"
  shows "\<exists>v. validateAction a = Inr v \<and>
     (ok v = False) = (action_type a \<notin> set registeredKinds \<or>
        (\<exists>k \<in> set (requiredParams (action_type a)). nullish (getParam (action_params a) k))) \<and>
     (action_type a \<in> set registeredKinds \<and> \<not> ok v \<longrightarrow>
        issues v = Some (map (\<lambda>k. missingIssue k (action_type a))
          (filter (\<lambda>k. nullish (getParam (action_params a) k))
             (requiredParams (action_type a)))))"
proof (cases "map_of TOOL_DEFINITIONS (action_type a)")
  case None
  then have "action_type a \<notin> set registeredKinds"
    using registered_lookup[of "action_type a"] by simp
  with None assms show ?thesis
    by (simp add: validateAction_def getTool_def readProperty_def)
next
  case (Some tool)
  then have reg: "action_type a \<in> set registeredKinds"
    using registered_lookup[of "action_type a"] by simp
  have "(schemaIssues a (tool_schema tool) \<noteq> []) =
        (\<exists>k \<in> set (requiredParams (action_type a)). nullish (getParam (action_params a) k))"
    using Some
    by (simp add: schemaIssues_empty_iff isMissing_def requiredParams_def nullish_def) force
  with Some reg schemaIssues_names_missing[OF Some] show ?thesis
    by (simp add: validateAction_def getTool_def readProperty_def Let_def)
qed

text \<open>Parameters outside the schema do not matter to the validator.\<close>

lemma validateAction_ignores_extras:
  assumes "action_type a = action_type b"
    and "\<And>tool k. map_of TOOL_DEFINITIONS (action_type a) = Some tool \<Longrightarrow>
            k \<in> fst ` set (tool_schema tool) \<Longrightarrow>
            getParam (action_params a) k = getParam (action_params b) k"
  shows "validateAction a = validateAction b"
proof (cases "map_of TOOL_DEFINITIONS (action_type a)")
  case None
  then show ?thesis using assms(1)
    by (simp add: validateAction_def getTool_def readProperty_def)
next
  case (Some tool)
  have "filter (isMissing (action_params a)) (tool_schema tool) =
        filter (isMissing (action_params b)) (tool_schema tool)"
    using assms(2)[OF Some] by (intro filter_cong) (auto simp: isMissing_def)
  then show ?thesis using Some assms(1)
    by (simp add: validateAction_def getTool_def readProperty_def schemaIssues_def)
qed

text \<open>
  C1. The validator is claimed to return \<open>ok = false\<close> for every action whose kind is
  not one of the seven registered ones. The kind \<open>constructor\<close> is not registered, yet
  \<open>TOOL_DEFINITIONS["constructor"]\<close> is the inherited \<open>Object\<close> function, the guard
  for unknown tools does not fire, and \<open>validateAction\<close> throws a \<open>TypeError\<close>
  instead of returning a result.
\<close>

theorem validateAction_inherited_kind_throws:
  "''constructor'' \<notin> set registeredKinds \<and>
   validateAction \<lparr>action_type = ''constructor'', action_params = []\<rparr>
     = Inl (JsError ''Cannot convert undefined or null to object'')"
  by (simp add: validateAction_def getTool_def readProperty_def TOOL_DEFINITIONS_def
      objectPrototypeKeys_def registeredKinds_def)

section \<open>Properties of the memory\<close>

lemma sliceFrom_negative:
  "0 < k \<Longrightarrow> sliceFrom xs (- k) = drop (length xs - nat k) xs"
proof -
  assume "0 < k"
  then have "nat (max (int (length xs) + - k) 0) = length xs - nat k" by linarith
  with \<open>0 < k\<close> show ?thesis by (simp add: sliceFrom_def sliceIndex_def)
qed

text \<open>\<open>getRecent\<close> is a window on the entries the memory holds for the task.\<close>

lemma getRecent_window:
  "getRecent m taskId k =
     (if 0 < k
      then drop (length (entriesOf m taskId) - min (nat k) (length (entriesOf m taskId)))
             (entriesOf m taskId)
      else entriesOf m taskId)"
  by (auto simp: getRecent_def Let_def min_def sliceFrom_negative)

text \<open>
  \<open>remember\<close> appends to the entries of its own task and leaves those of every other
  task as they are; \<open>clear\<close> empties the entries of its own task only.
\<close>

lemma entriesOf_remember_any:
  "entriesOf (remember m writer entry) taskId =
     (if writer = taskId then entriesOf m taskId @ [entry] else entriesOf m taskId)"
  by (simp add: remember_def entriesOf_def)

lemma entriesOf_clear:
  "entriesOf (clear m cleared) taskId = (if cleared = taskId then [] else entriesOf m taskId)"
  by (simp add: clear_def entriesOf_def)

text \<open>
  A sequence of \<open>remember\<close> calls, for any tasks in any order: the entries of a task
  grow by the entries written for it, in the order of the calls.
\<close>

lemma entriesOf_writes:
  "entriesOf (foldl (\<lambda>m w. remember m (fst w) (snd w)) m ws) taskId =
     entriesOf m taskId @ map snd (filter (\<lambda>w. fst w = taskId) ws)"
  by (induction ws rule: rev_induct) (simp_all add: entriesOf_remember_any)

text \<open>
  C7. Let \<open>ws\<close> be any sequence of \<open>remember\<close> calls on a memory, for this task
  and for others, after the entries of the task were cleared, and let \<open>es\<close> be the
  \<open>n\<close> entries written for the task, in the order of the calls. Then
  \<open>getRecent(id, k)\<close> is the last \<open>min(k, n)\<close> entries of \<open>es\<close>, in insertion
  order, when \<open>k > 0\<close>, and all of \<open>es\<close> when \<open>k \<le> 0\<close>. On any memory,
  \<open>getRecent\<close> is this window on the entries the memory holds for the task, to which
  \<open>remember\<close> for the task appends one entry. The result depends on the entries of
  the task only: two calls with the same arguments on memories that hold the same
  entries for the task, in particular two calls with no \<open>remember\<close> or \<open>clear\<close>
  in between, or with writes and clears for other tasks in between, return equal
  sequences.
\<close>

theorem getRecent_last_entries:
  "(let m = foldl (\<lambda>m w. remember m (fst w) (snd w)) (clear m0 taskId) ws;
        es = map snd (filter (\<lambda>w. fst w = taskId) ws)
    in getRecent m taskId k =
         (if 0 < k then drop (length es - min (nat k) (length es)) es else es) \<and>
       length (getRecent m taskId k) = (if 0 < k then min (nat k) (length es) else length es)) \<and>
   getRecent m1 taskId k =
     (if 0 < k
      then drop (length (entriesOf m1 taskId) - min (nat k) (length (entriesOf m1 taskId)))
             (entriesOf m1 taskId)
      else entriesOf m1 taskId) \<and>
   entriesOf (remember m1 taskId entry) taskId = entriesOf m1 taskId @ [entry] \<and>
   (entriesOf m2 taskId = entriesOf m1 taskId \<longrightarrow>
      getRecent m2 taskId k = getRecent m1 taskId k) \<and>
   (other \<noteq> taskId \<longrightarrow>
      getRecent (remember m1 other entry) taskId k = getRecent m1 taskId k \<and>
      getRecent (clear m1 other) taskId k = getRecent m1 taskId k) \<and>
   ((\<forall>w \<in> set ws. fst w \<noteq> taskId) \<longrightarrow>
      getRecent (foldl (\<lambda>m w. remember m (fst w) (snd w)) m1 ws) taskId k =
        getRecent m1 taskId k)"
proof (intro conjI impI)
  let ?m = "foldl (\<lambda>m w. remember m (fst w) (snd w)) (clear m0 taskId) ws"
  let ?es = "map snd (filter (\<lambda>w. fst w = taskId) ws)"
  have es: "entriesOf ?m taskId = ?es"
    by (simp add: entriesOf_writes entriesOf_clear)
  have recent: "getRecent ?m taskId k =
      (if 0 < k then drop (length ?es - min (nat k) (length ?es)) ?es else ?es)"
    unfolding getRecent_window es ..
  have "length (getRecent ?m taskId k) = (if 0 < k then min (nat k) (length ?es) else length ?es)"
    unfolding recent by (simp add: min_def)
  with recent show "let m = ?m; es = ?es
    in getRecent m taskId k =
         (if 0 < k then drop (length es - min (nat k) (length es)) es else es) \<and>
       length (getRecent m taskId k) = (if 0 < k then min (nat k) (length es) else length es)"
    unfolding Let_def by (rule conjI)
next
  show "getRecent m1 taskId k =
     (if 0 < k
      then drop (length (entriesOf m1 taskId) - min (nat k) (length (entriesOf m1 taskId)))
             (entriesOf m1 taskId)
      else entriesOf m1 taskId)"
    by (rule getRecent_window)
next
  show "entriesOf (remember m1 taskId entry) taskId = entriesOf m1 taskId @ [entry]"
    by (simp add: entriesOf_remember_any)
next
  assume "entriesOf m2 taskId = entriesOf m1 taskId"
  then show "getRecent m2 taskId k = getRecent m1 taskId k"
    by (simp add: getRecent_def)
next
  assume "other \<noteq> taskId"
  then show "getRecent (remember m1 other entry) taskId k = getRecent m1 taskId k"
    by (simp add: getRecent_def entriesOf_remember_any)
next
  assume "other \<noteq> taskId"
  then show "getRecent (clear m1 other) taskId k = getRecent m1 taskId k"
    by (simp add: getRecent_def entriesOf_clear)
next
  assume "\<forall>w \<in> set ws. fst w \<noteq> taskId"
  then have "filter (\<lambda>w. fst w = taskId) ws = []" by (simp add: filter_empty_conv)
  then have "entriesOf (foldl (\<lambda>m w. remember m (fst w) (snd w)) m1 ws) taskId =
             entriesOf m1 taskId"
    by (simp add: entriesOf_writes)
  then show "getRecent (foldl (\<lambda>m w. remember m (fst w) (snd w)) m1 ws) taskId k =
             getRecent m1 taskId k"
    by (simp add: getRecent_def)
qed

theorem getRecent_last_entries_witness:
  "(let note = (\<lambda>c. \<lparr>entry_type = Thought, entry_content = c, entry_metadata = None\<rparr>);
        m = foldl (\<lambda>m w. remember m (fst w) (snd w)) (clear Map.empty ''task-1'')
              [(''task-1'', note ''a''), (''task-2'', note ''x''), (''task-1'', note ''b''),
               (''task-2'', note ''y''), (''task-1'', note ''c'')]
    in getRecent m ''task-1'' 2 = [note ''b'', note ''c''] \<and>
       getRecent m ''task-1'' 0 = [note ''a'', note ''b'', note ''c''] \<and>
       getRecent m ''task-1'' 5 = [note ''a'', note ''b'', note ''c''] \<and>
       getRecent (remember m ''task-2'' (note ''z'')) ''task-1'' 2 = getRecent m ''task-1'' 2 \<and>
       getRecent (clear m ''task-2'') ''task-1'' 2 = getRecent m ''task-1'' 2 \<and>
       getRecent (foldl (\<lambda>m w. remember m (fst w) (snd w)) m
                    [(''task-2'', note ''z''), (''task-3'', note ''u'')]) ''task-1'' 2 =
         getRecent m ''task-1'' 2)"
proof -
  let ?note = "\<lambda>c. \<lparr>entry_type = Thought, entry_content = c, entry_metadata = None\<rparr>"
  let ?ws = "[(''task-1'', ?note ''a''), (''task-2'', ?note ''x''), (''task-1'', ?note ''b''),
              (''task-2'', ?note ''y''), (''task-1'', ?note ''c'')]"
  let ?m = "foldl (\<lambda>m w. remember m (fst w) (snd w)) (clear Map.empty ''task-1'') ?ws"
  let ?more = "[(''task-2'', ?note ''z''), (''task-3'', ?note ''u'')]"
  have es: "map snd (filter (\<lambda>w. fst w = ''task-1'') ?ws) =
      [?note ''a'', ?note ''b'', ?note ''c'']"
    by simp
  have others: "''task-2'' \<noteq> ''task-1''" "\<forall>w \<in> set ?more. fst w \<noteq> ''task-1''"
    by simp_all
  note window = getRecent_last_entries[of Map.empty "''task-1''" ?ws _ _ _ _ "''task-2''",
      THEN conjunct1, unfolded Let_def es, THEN conjunct1]
  have two: "getRecent ?m ''task-1'' 2 = [?note ''b'', ?note ''c'']"
    using window[of 2] by simp
  have all: "getRecent ?m ''task-1'' 0 = [?note ''a'', ?note ''b'', ?note ''c'']"
    using window[of 0] by simp
  have five: "getRecent ?m ''task-1'' 5 = [?note ''a'', ?note ''b'', ?note ''c'']"
    using window[of 5] by simp
  from getRecent_last_entries[of Map.empty "''task-1''" ?more 2 ?m _ ?m "''task-2''"] others
  have frame:
    "getRecent (remember ?m ''task-2'' entry) ''task-1'' 2 = getRecent ?m ''task-1'' 2"
    "getRecent (clear ?m ''task-2'') ''task-1'' 2 = getRecent ?m ''task-1'' 2"
    "getRecent (foldl (\<lambda>m w. remember m (fst w) (snd w)) ?m ?more) ''task-1'' 2 =
       getRecent ?m ''task-1'' 2"
    for entry
    by blast+
  show ?thesis unfolding Let_def frame two all five by simp
qed

section \<open>Properties of the planner-output parser\<close>

lemma brace_not_whitespace: "\<not> isWhiteSpace CHR ''{''" "\<not> isWhiteSpace CHR ''}''"
  by (simp_all add: isWhiteSpace_def)

lemma trim_framed:
  assumes "s \<noteq> []" "\<not> isWhiteSpace (hd s)" "\<not> isWhiteSpace (last s)"
  shows "trim (pre @ s @ post) =
         dropWhile isWhiteSpace pre @ s @ rev (dropWhile isWhiteSpace (rev post))"
proof -
  obtain a s' where s: "s = a # s'" using assms(1) by (cases s) auto
  obtain s'' b where s2: "s = s'' @ [b]" using assms(1) by (cases s rule: rev_cases) auto
  have a: "\<not> isWhiteSpace a" using assms(2) s by simp
  have b: "\<not> isWhiteSpace b" using assms(3) s2 by simp
  have left_part: "dropWhile isWhiteSpace (pre @ s @ post) = dropWhile isWhiteSpace pre @ s @ post"
    using a s by (simp add: dropWhile_append)
  have right_part: "dropWhile isWhiteSpace (rev post @ rev s @ rev (dropWhile isWhiteSpace pre))
           = dropWhile isWhiteSpace (rev post) @ rev s @ rev (dropWhile isWhiteSpace pre)"
    using b s2 by (simp add: dropWhile_append)
  show ?thesis unfolding trim_def left_part by (simp add: right_part)
qed

lemma trim_self:
  assumes "s \<noteq> []" "\<not> isWhiteSpace (hd s)" "\<not> isWhiteSpace (last s)"
  shows "trim s = s"
  using trim_framed[OF assms, of "[]" "[]"] by simp

lemma indexOf_framed:
  assumes "c \<notin> set p" "s \<noteq> []" "hd s = c"
  shows "indexOf (p @ s @ q) c = int (length p)"
proof -
  obtain s' where s: "s = c # s'" using assms by (cases s) auto
  have "takeWhile (\<lambda>x. x \<noteq> c) (p @ s @ q) = p"
    using assms(1) s by (simp add: takeWhile_append)
  then show ?thesis using s by (simp add: indexOf_def)
qed

lemma lastIndexOf_framed:
  assumes "c \<notin> set q" "s \<noteq> []" "last s = c"
  shows "lastIndexOf (p @ s @ q) c = int (length p) + int (length s) - 1"
proof -
  obtain s' where s: "s = s' @ [c]" using assms by (cases s rule: rev_cases) auto
  have "takeWhile (\<lambda>x. x \<noteq> c) (rev q @ rev s @ rev p) = rev q"
    using assms(1) s by (simp add: takeWhile_append)
  then show ?thesis using s by (simp add: lastIndexOf_def)
qed

lemma slice_framed:
  "slice (p @ s @ q) (int (length p)) (int (length p) + int (length s)) = s"
proof -
  have "nat (int (length p) + int (length s)) = length p + length s" by linarith
  then show ?thesis by (simp add: slice_def sliceIndex_def Let_def)
qed

lemma notin_dropWhile: "x \<notin> set xs \<Longrightarrow> x \<notin> set (dropWhile P xs)"
  by (meson set_dropWhileD)

lemma parse_plain:
  assumes ok: "jsonParse s = Some v"
    and s: "s \<noteq> []" "hd s = CHR ''{''" "last s = CHR ''}''"
  shows "parseJsonFromText jsonParse s = v"
proof -
  have "trim s = s" using s by (intro trim_self) (simp_all add: brace_not_whitespace)
  then show ?thesis using ok s(1) by (simp add: parseJsonFromText_def tryParse_def)
qed

lemma parse_embedded:
  assumes ok: "jsonParse s = Some v"
    and s: "s \<noteq> []" "hd s = CHR ''{''" "last s = CHR ''}''"
    and pre: "CHR ''{'' \<notin> set pre"
    and post: "CHR ''}'' \<notin> set post"
    and direct: "jsonParse (trim (pre @ s @ post)) = None"
  shows "parseJsonFromText jsonParse (pre @ s @ post) = v"
proof -
  let ?p = "dropWhile isWhiteSpace pre"
  let ?q = "rev (dropWhile isWhiteSpace (rev post))"
  have t: "trim (pre @ s @ post) = ?p @ s @ ?q"
    using s by (intro trim_framed) (simp_all add: brace_not_whitespace)
  have p: "CHR ''{'' \<notin> set ?p" using pre by (rule notin_dropWhile)
  have q: "CHR ''}'' \<notin> set ?q"
    using post notin_dropWhile[of "CHR ''}''" "rev post"] by simp
  have i: "indexOf (?p @ s @ ?q) CHR ''{'' = int (length ?p)"
    using p s by (intro indexOf_framed) simp_all
  have j: "lastIndexOf (?p @ s @ ?q) CHR ''}'' = int (length ?p) + int (length s) - 1"
    using q s by (intro lastIndexOf_framed) simp_all
  have len: "2 \<le> length s"
  proof (cases s)
    case Nil
    then show ?thesis using s by simp
  next
    case (Cons a s')
    then show ?thesis using s by (cases s') auto
  qed
  have c: "slice (?p @ s @ ?q) (int (length ?p)) (int (length ?p) + int (length s) - 1 + 1) = s"
    using slice_framed[of ?p s ?q] by simp
  show ?thesis
    using s(1) direct ok len unfolding parseJsonFromText_def tryParse_def t Let_def i j c
    by simp
qed

lemma parse_null:
  assumes "jsonParse (trim text) = None"
    and "jsonParse (slice (trim text) (indexOf (trim text) CHR ''{'')
                      (lastIndexOf (trim text) CHR ''}'' + 1)) = None"
  shows "parseJsonFromText jsonParse text = JNull"
  using assms by (simp add: parseJsonFromText_def tryParse_def Let_def)

text \<open>No JSON text starts with a backtick, so a fenced text never parses directly.\<close>

lemma JSON_parse_backtick: "JSON_parse (CHR 0x60 # rest) = None"
  by (simp add: JSON_parse_def skipWs_def isJsonWs_def parseNumber_def isDigit_def Let_def)

text \<open>
  C6, as stated, fails: the direct parse of the trimmed text comes first, and prose
  without braces can make the whole text valid JSON. The object text \<open>{}\<close> between
  \<open>[\<close> and \<open>]\<close> parses directly, to an array holding the object, not to the object.
\<close>

theorem parseJsonFromText_bracket_prose_differs:
  "JSON_parse ''{}'' = Some (JObject []) \<and>
   CHR ''{'' \<notin> set ''['' \<and> CHR ''}'' \<notin> set ''['' \<and>
   CHR ''{'' \<notin> set '']'' \<and> CHR ''}'' \<notin> set '']'' \<and>
   parseJsonFromText JSON_parse ''{}'' = JObject [] \<and>
   parseJsonFromText JSON_parse (''['' @ ''{}'' @ '']'') = JArray [JObject []] \<and>
   parseJsonFromText JSON_parse (''['' @ ''{}'' @ '']'') \<noteq> parseJsonFromText JSON_parse ''{}''"
  by code_simp

text \<open>
  C6, amended. Let \<open>s\<close> start with \<open>{\<close>, end with \<open>}\<close> and parse as JSON to \<open>v\<close>,
  for any \<open>JSON.parse\<close>. Then \<open>parseJsonFromText\<close> returns \<open>v\<close> on \<open>s\<close> itself, and
  on \<open>s\<close> between a prefix without \<open>{\<close> and a suffix without \<open>}\<close> whenever the trimmed
  whole is not itself valid JSON (the markdown fence is such a wrapper). When neither
  the trimmed text nor its part from the first \<open>{\<close> to the last \<open>}\<close> parses, the
  result is \<open>null\<close>.
\<close>

theorem parseJsonFromText_tolerates_wrappers:
  assumes "jsonParse s = Some v" and "s \<noteq> []" and "hd s = CHR ''{''" and "last s = CHR ''}''"
  shows "parseJsonFromText jsonParse s = v \<and>
    (\<forall>pre post. CHR ''{'' \<notin> set pre \<and> CHR ''}'' \<notin> set post \<and>
        jsonParse (trim (pre @ s @ post)) = None \<longrightarrow>
        parseJsonFromText jsonParse (pre @ s @ post) = v) \<and>
    (jsonParse (trim (''```json'' @ [CHR 0x0A] @ s @ [CHR 0x0A] @ ''```'')) = None \<longrightarrow>
        parseJsonFromText jsonParse (''```json'' @ [CHR 0x0A] @ s @ [CHR 0x0A] @ ''```'') = v) \<and>
    (\<forall>raw. jsonParse (trim raw) = None \<and>
        jsonParse (slice (trim raw) (indexOf (trim raw) CHR ''{'')
                     (lastIndexOf (trim raw) CHR ''}'' + 1)) = None \<longrightarrow>
        parseJsonFromText jsonParse raw = JNull)"
proof (intro conjI allI impI)
  show "parseJsonFromText jsonParse s = v" using assms by (rule parse_plain)
next
  fix pre post
  assume "CHR ''{'' \<notin> set pre \<and> CHR ''}'' \<notin> set post \<and>
          jsonParse (trim (pre @ s @ post)) = None"
  then show "parseJsonFromText jsonParse (pre @ s @ post) = v"
    using parse_embedded[of jsonParse s v pre post] assms by blast
next
  assume "jsonParse (trim (''```json'' @ [CHR 0x0A] @ s @ [CHR 0x0A] @ ''```'')) = None"
  then show "parseJsonFromText jsonParse (''```json'' @ [CHR 0x0A] @ s @ [CHR 0x0A] @ ''```'') = v"
    using parse_embedded[of jsonParse s v "''```json'' @ [CHR 0x0A]" "[CHR 0x0A] @ ''```''"] assms
    by simp
next
  fix raw
  assume "jsonParse (trim raw) = None \<and>
          jsonParse (slice (trim raw) (indexOf (trim raw) CHR ''{'')
                       (lastIndexOf (trim raw) CHR ''}'' + 1)) = None"
  then show "parseJsonFromText jsonParse raw = JNull"
    using parse_null by blast
qed

theorem parseJsonFromText_tolerates_wrappers_witness:
  "parseJsonFromText JSON_parse (''{'' @ dquote ''a'' @ '':1}'') = JObject [(''a'', JNumber 1)] \<and>
   parseJsonFromText JSON_parse (''chatter '' @ (''{'' @ dquote ''a'' @ '':1}'') @ '' chatter'')
     = JObject [(''a'', JNumber 1)] \<and>
   parseJsonFromText JSON_parse
     (''```json'' @ [CHR 0x0A] @ (''{'' @ dquote ''a'' @ '':1}'') @ [CHR 0x0A] @ ''```'')
     = JObject [(''a'', JNumber 1)] \<and>
   parseJsonFromText JSON_parse ''no json in here'' = JNull"
proof -
  let ?s = "''{'' @ dquote ''a'' @ '':1}''"
  let ?v = "JObject [(''a'', JNumber 1)]"
  have h1: "JSON_parse ?s = Some ?v" by code_simp
  have h2: "?s \<noteq> []" by simp
  have h3: "hd ?s = CHR ''{''" by simp
  have h4: "last ?s = CHR ''}''" by simp
  note W = parseJsonFromText_tolerates_wrappers[of JSON_parse ?s ?v, OF h1 h2 h3 h4]
  have d1: "CHR ''{'' \<notin> set ''chatter '' \<and> CHR ''}'' \<notin> set '' chatter'' \<and>
            JSON_parse (trim (''chatter '' @ ?s @ '' chatter'')) = None" by code_simp
  have d2: "JSON_parse (trim (''```json'' @ [CHR 0x0A] @ ?s @ [CHR 0x0A] @ ''```'')) = None"
    by code_simp
  have d3: "JSON_parse (trim ''no json in here'') = None \<and>
            JSON_parse (slice (trim ''no json in here'') (indexOf (trim ''no json in here'') CHR ''{'')
                     (lastIndexOf (trim ''no json in here'') CHR ''}'' + 1)) = None" by code_simp
  from W d1 d2 d3 show ?thesis by blast
qed

section \<open>Properties of the orchestrator's steps\<close>

lemma emit_simps [simp]:
  "o_task (emit s e) = o_task s"
  "o_memory (emit s e) = o_memory s"
  "o_events (emit s e) = o_events s @ [e]"
  by (simp_all add: emit_def)

lemma rememberEntry_simps [simp]:
  "o_task (rememberEntry s entry) = o_task s"
  "o_events (rememberEntry s entry) = o_events s"
  "o_memory (rememberEntry s entry) = remember (o_memory s) (task_id (o_task s)) entry"
  by (simp_all add: rememberEntry_def)

lemma entriesOf_remember [simp]:
  "entriesOf (remember m taskId entry) taskId = entriesOf m taskId @ [entry]"
  by (simp add: remember_def entriesOf_def)

lemma summarise_simps [simp]:
  "fst (summarise str s ob) = summaryText str (o_task s) ob"
  "o_task (snd (summarise str s ob)) = o_task s"
  "o_events (snd (summarise str s ob)) = o_events s"
  by (simp_all add: summarise_def Let_def)

lemma finishTask_simps [simp]:
  "o_task (finishTask s summary) =
     (o_task s)\<lparr>task_status := Succeeded, task_summary := Some summary\<rparr>"
  "o_events (finishTask s summary) = o_events s @ [TaskCompleted (task_id (o_task s)) summary]"
  by (simp_all add: finishTask_def Let_def)

lemma completeFromFinish_simps [simp]:
  "o_task (completeFromFinish s summary f) =
     (if finish_status f = FinishSuccess
      then (o_task s)\<lparr>task_status := Succeeded, task_summary := Some summary\<rparr>
      else (o_task s)\<lparr>task_status := Failed, task_lastError := Some summary,
                        task_summary := Some summary\<rparr>)"
  "o_events (completeFromFinish s summary f) =
     o_events s @ [if finish_status f = FinishSuccess
                   then TaskCompleted (task_id (o_task s)) summary
                   else TaskFailed (task_id (o_task s)) summary]"
  by (simp_all add: completeFromFinish_def)

lemma catchBlock_simps [simp]:
  "o_task (catchBlock s e) =
     (o_task s)\<lparr>task_lastError := Some (errorMessage e), task_status := Failed\<rparr>"
  "o_events (catchBlock s e) =
     o_events s @ [TaskError (task_id (o_task s)) (errorMessage e),
                   TaskFailed (task_id (o_task s)) (errorMessage e)]"
  "o_memory (catchBlock s e) =
     remember (o_memory s) (task_id (o_task s))
       \<lparr>entry_type = ObservationEntry, entry_content = ''Error: '' @ errorMessage e,
        entry_metadata = None\<rparr>"
  by (simp_all add: catchBlock_def Let_def)

lemma planStep_throws:
  "planner d i (planInput s) = Inl e \<Longrightarrow>
   planStep d i s =
     (emit s (PlanningStarted (task_id (o_task s))
                (length (getRecent (o_memory s) (task_id (o_task s)) 16))), Inl e)"
  by (simp add: planStep_def Let_def)

lemma planStep_returns:
  "planner d i (planInput s) = Inr p \<Longrightarrow>
   planStep d i s =
     (emit
        (rememberEntry
           (emit s (PlanningStarted (task_id (o_task s))
                      (length (getRecent (o_memory s) (task_id (o_task s)) 16))))
           \<lparr>entry_type = Thought, entry_content = plan_thought p, entry_metadata = None\<rparr>)
        (PlanningFinished (task_id (o_task s)) (plan_thought p) (plan_action p) (plan_finish p)),
      Inr p)"
  by (simp add: planStep_def Let_def)

lemma planStep_task [simp]: "o_task (fst (planStep d i s)) = o_task s"
  by (cases "planner d i (planInput s)") (simp_all add: planStep_throws planStep_returns)

lemma createStep_simps [simp]:
  "fst (createStep d i s p) =
     \<lparr>step_id = randomUUID d i, step_index = length (task_steps (o_task s)),
      step_status = StepRunning, step_action = plan_action p, step_observation = None,
      step_modelThought = Some (plan_thought p)\<rparr>"
  "o_task (snd (createStep d i s p)) =
     (o_task s)\<lparr>task_steps := task_steps (o_task s) @ [fst (createStep d i s p)]\<rparr>"
  "o_events (snd (createStep d i s p)) =
     o_events s @ [StepCreated (task_id (o_task s)) (fst (createStep d i s p))]"
  "o_memory (snd (createStep d i s p)) = o_memory s"
  by (simp_all add: createStep_def Let_def)

lemma executeStep_simps [simp]:
  "o_task (fst (executeStep d i s step a)) = o_task s"
  "o_events (fst (executeStep d i s step a)) =
     o_events s @ [StepExecuting (task_id (o_task s)) (step_id step) a]"
  by (simp_all add: executeStep_def Let_def)

lemma finaliseStep_simps [simp]:
  "o_task (finaliseStep s step ob) =
     (o_task s)\<lparr>task_steps := (task_steps (o_task s))
        [step_index step :=
           step\<lparr>step_status := (if obs_result ob = Success then StepSucceeded else StepFailed),
                step_observation := Some ob\<rparr>]\<rparr>"
  "o_events (finaliseStep s step ob) =
     o_events s @
       [StepUpdated (task_id (o_task s)) (step_id step)
          (step\<lparr>step_status := (if obs_result ob = Success then StepSucceeded else StepFailed),
                step_observation := Some ob\<rparr>)]"
  by (simp_all add: finaliseStep_def Let_def)

lemma newStep_simps [simp]:
  "step_id (newStep d i s p) = randomUUID d i"
  "step_index (newStep d i s p) = length (task_steps (o_task s))"
  "step_status (newStep d i s p) = StepRunning"
  "step_action (newStep d i s p) = plan_action p"
  "step_observation (newStep d i s p) = None"
  "step_modelThought (newStep d i s p) = Some (plan_thought p)"
  by (simp_all add: newStep_def)

lemma executing_simps [simp]:
  "o_task (executing d i s p a) =
     (o_task s)\<lparr>task_steps := task_steps (o_task s) @ [newStep d i s p]\<rparr>"
  "o_events (executing d i s p a) =
     o_events s @ [StepCreated (task_id (o_task s)) (newStep d i s p),
                   StepExecuting (task_id (o_task s)) (randomUUID d i) a]"
  by (simp_all add: executing_def newStep_def)

lemma executeStep_result:
  "executeStep d i (snd (createStep d i s p)) (newStep d i s p) a =
     (executing d i s p a, executor d i (executorPayload d i s p a))"
  by (simp add: executing_def executorPayload_def executeStep_def Let_def)

lemma actOn_throws:
  "executor d i (executorPayload d i s p a) = Inl e \<Longrightarrow>
   actOn d i s p a = (executing d i s p a, Inl e)"
  unfolding actOn_def
  by (cases "createStep d i s p") (use executeStep_result[of d i s p a] in \<open>simp add: newStep_def\<close>)

lemma actOn_continues:
  "executor d i (executorPayload d i s p a) = Inr ex \<Longrightarrow> exec_didTerminate ex \<noteq> Some True \<Longrightarrow>
   actOn d i s p a =
     (finaliseStep (executing d i s p a) (newStep d i s p) (exec_observation ex), Inr False)"
  unfolding actOn_def
  by (cases "createStep d i s p")
     (use executeStep_result[of d i s p a] in \<open>simp add: newStep_def Let_def\<close>)

lemma actOn_terminates:
  "executor d i (executorPayload d i s p a) = Inr ex \<Longrightarrow> exec_didTerminate ex = Some True \<Longrightarrow>
   actOn d i s p a =
     (concludeTask d
        (finaliseStep (executing d i s p a) (newStep d i s p) (exec_observation ex)) ex,
      Inr True)"
  unfolding actOn_def
  using executeStep_result[of d i s p a]
  by (simp add: newStep_def Let_def case_prod_beta del: finaliseStep_simps)

lemma concludeTask_simps [simp]:
  "o_task (concludeTask d s ex) =
     (o_task s)\<lparr>task_status := Succeeded,
       task_summary := Some (case exec_summary ex of
                               Some summary \<Rightarrow> summary
                             | None \<Rightarrow> summaryText (stringify d) (o_task s) (exec_observation ex))\<rparr>"
  "o_events (concludeTask d s ex) =
     o_events s @
       [TaskCompleted (task_id (o_task s))
          (case exec_summary ex of
             Some summary \<Rightarrow> summary
           | None \<Rightarrow> summaryText (stringify d) (o_task s) (exec_observation ex))]"
  by (simp_all add: concludeTask_def case_prod_beta split: option.splits)

lemma noteCaution_simps [simp]:
  "o_task (noteCaution s p) = o_task s"
  "o_events (noteCaution s p) = o_events s"
  by (simp_all add: noteCaution_def split: option.splits)

lemma planned_task [simp]: "o_task (planned d i s p) = o_task s"
  by (simp add: planned_def)

lemma planned_events:
  "planner d i (planInput s) = Inr p \<Longrightarrow>
   o_events (planned d i s p) =
     o_events s @
       [PlanningStarted (task_id (o_task s))
          (length (getRecent (o_memory s) (task_id (o_task s)) 16)),
        PlanningFinished (task_id (o_task s)) (plan_thought p) (plan_action p) (plan_finish p)]"
  by (simp add: planned_def planStep_returns)

lemma planStep_throws_events:
  "planner d i (planInput s) = Inl e \<Longrightarrow>
   o_events (fst (planStep d i s)) =
     o_events s @
       [PlanningStarted (task_id (o_task s))
          (length (getRecent (o_memory s) (task_id (o_task s)) 16))]"
  by (simp add: planStep_throws)

text \<open>
  The eight ways through one iteration: what the planner, the validator and the
  executor answered, and the state the iteration ends in.
\<close>

lemma iteration_cases
  [case_names plannerThrows finish noAction validatorThrows invalid executorThrows
     terminal continue]:
  obtains
    e where "planner d i (planInput s) = Inl e"
      and "iteration d i s = (catchBlock (fst (planStep d i s)) e, True)"
  | p f where "planner d i (planInput s) = Inr p" and "plan_finish p = Some f"
      and "iteration d i s = (completeFromFinish (planned d i s p) (finish_summary f) f, True)"
  | p where "planner d i (planInput s) = Inr p" and "plan_finish p = None"
      and "plan_action p = None"
      and "iteration d i s =
             (catchBlock (planned d i s p)
                (JsError ''Agent returned neither an action nor a finish directive.''), True)"
  | p a e where "planner d i (planInput s) = Inr p" and "plan_finish p = None"
      and "plan_action p = Some a" and "validateAction a = Inl e"
      and "iteration d i s = (catchBlock (planned d i s p) e, True)"
  | p a v where "planner d i (planInput s) = Inr p" and "plan_finish p = None"
      and "plan_action p = Some a" and "validateAction a = Inr v" and "\<not> ok v"
      and "iteration d i s =
             (catchBlock (planned d i s p) (JsError (invalidActionMessage v)), True)"
  | p a v e where "planner d i (planInput s) = Inr p" and "plan_finish p = None"
      and "plan_action p = Some a" and "validateAction a = Inr v" and "ok v"
      and "executor d i (executorPayload d i (planned d i s p) p a) = Inl e"
      and "iteration d i s = (catchBlock (executing d i (planned d i s p) p a) e, True)"
  | p a v ex where "planner d i (planInput s) = Inr p" and "plan_finish p = None"
      and "plan_action p = Some a" and "validateAction a = Inr v" and "ok v"
      and "executor d i (executorPayload d i (planned d i s p) p a) = Inr ex"
      and "exec_didTerminate ex = Some True"
      and "iteration d i s =
             (concludeTask d
                (finaliseStep (executing d i (planned d i s p) p a)
                   (newStep d i (planned d i s p) p) (exec_observation ex)) ex, True)"
  | p a v ex where "planner d i (planInput s) = Inr p" and "plan_finish p = None"
      and "plan_action p = Some a" and "validateAction a = Inr v" and "ok v"
      and "executor d i (executorPayload d i (planned d i s p) p a) = Inr ex"
      and "exec_didTerminate ex \<noteq> Some True"
      and "iteration d i s =
             (finaliseStep (executing d i (planned d i s p) p a)
                (newStep d i (planned d i s p) p) (exec_observation ex), False)"
proof (cases "planner d i (planInput s)")
  case (Inl e)
  then have "iteration d i s = (catchBlock (fst (planStep d i s)) e, True)"
    by (simp add: iteration_def tryBlock_def planStep_throws)
  with Inl show ?thesis using that(1) by blast
next
  case (Inr p)
  then have tb: "tryBlock d i s = followPlan d i (planned d i s p) p"
    by (simp add: tryBlock_def planned_def planStep_returns)
  show ?thesis
  proof (cases "plan_finish p")
    case (Some f)
    then have "iteration d i s =
        (completeFromFinish (planned d i s p) (finish_summary f) f, True)"
      by (simp add: iteration_def tb followPlan_def)
    with Inr Some show ?thesis using that(2) by blast
  next
    case None
    show ?thesis
    proof (cases "plan_action p")
      case noact: None
      then have "iteration d i s =
          (catchBlock (planned d i s p)
             (JsError ''Agent returned neither an action nor a finish directive.''), True)"
        using None by (simp add: iteration_def tb followPlan_def)
      with Inr None noact show ?thesis using that(3) by blast
    next
      case (Some a)
      show ?thesis
      proof (cases "validateAction a")
        case vthrow: (Inl e)
        then have "iteration d i s = (catchBlock (planned d i s p) e, True)"
          using None Some by (simp add: iteration_def tb followPlan_def)
        with Inr None Some vthrow show ?thesis using that(4) by blast
      next
        case valid: (Inr v)
        show ?thesis
        proof (cases "ok v")
          case False
          then have "iteration d i s =
              (catchBlock (planned d i s p) (JsError (invalidActionMessage v)), True)"
            using None Some valid by (simp add: iteration_def tb followPlan_def)
          with Inr None Some valid False show ?thesis using that(5) by blast
        next
          case True
          then have follow: "tryBlock d i s = actOn d i (planned d i s p) p a"
            using None Some valid by (simp add: tb followPlan_def)
          show ?thesis
          proof (cases "executor d i (executorPayload d i (planned d i s p) p a)")
            case ethrow: (Inl e)
            then have "iteration d i s =
                (catchBlock (executing d i (planned d i s p) p a) e, True)"
              by (simp add: iteration_def follow actOn_throws)
            with Inr None Some valid True ethrow show ?thesis using that(6) by blast
          next
            case answered: (Inr ex)
            show ?thesis
            proof (cases "exec_didTerminate ex = Some True")
              case halts: True
              then have "iteration d i s =
                  (concludeTask d
                     (finaliseStep (executing d i (planned d i s p) p a)
                        (newStep d i (planned d i s p) p) (exec_observation ex)) ex, True)"
                using answered by (simp add: iteration_def follow actOn_terminates)
              with Inr None Some valid True answered halts show ?thesis using that(7) by blast
            next
              case cont: False
              then have "iteration d i s =
                  (finaliseStep (executing d i (planned d i s p) p a)
                     (newStep d i (planned d i s p) p) (exec_observation ex), False)"
                using answered by (simp add: iteration_def follow actOn_continues)
              with Inr None Some valid True answered cont show ?thesis using that(8) by blast
            qed
          qed
        qed
      qed
    qed
  qed
qed

text \<open>The step that \<open>finaliseStep\<close> leaves in the task.\<close>

lemma finalised_steps:
  "task_steps (o_task (finaliseStep (executing d i s p a) (newStep d i s p) ob)) =
     task_steps (o_task s) @
       [(newStep d i s p)\<lparr>step_status :=
           (if obs_result ob = Success then StepSucceeded else StepFailed),
          step_observation := Some ob\<rparr>]"
  by simp

text \<open>The same, read as equations for an iteration whose answers are known.\<close>

lemma iteration_planner_throws:
  "planner d i (planInput s) = Inl e \<Longrightarrow>
   iteration d i s = (catchBlock (fst (planStep d i s)) e, True)"
  by (cases d i s rule: iteration_cases) simp_all

lemma iteration_finish:
  "planner d i (planInput s) = Inr p \<Longrightarrow> plan_finish p = Some f \<Longrightarrow>
   iteration d i s = (completeFromFinish (planned d i s p) (finish_summary f) f, True)"
  by (cases d i s rule: iteration_cases) simp_all

lemma iteration_no_directive:
  "planner d i (planInput s) = Inr p \<Longrightarrow> plan_finish p = None \<Longrightarrow> plan_action p = None \<Longrightarrow>
   iteration d i s =
     (catchBlock (planned d i s p)
        (JsError ''Agent returned neither an action nor a finish directive.''), True)"
  by (cases d i s rule: iteration_cases) simp_all

lemma iteration_validator_throws:
  "planner d i (planInput s) = Inr p \<Longrightarrow> plan_finish p = None \<Longrightarrow> plan_action p = Some a \<Longrightarrow>
   validateAction a = Inl e \<Longrightarrow>
   iteration d i s = (catchBlock (planned d i s p) e, True)"
  by (cases d i s rule: iteration_cases) simp_all

lemma iteration_invalid:
  "planner d i (planInput s) = Inr p \<Longrightarrow> plan_finish p = None \<Longrightarrow> plan_action p = Some a \<Longrightarrow>
   validateAction a = Inr v \<Longrightarrow> \<not> ok v \<Longrightarrow>
   iteration d i s = (catchBlock (planned d i s p) (JsError (invalidActionMessage v)), True)"
  by (cases d i s rule: iteration_cases) simp_all

lemma iteration_executor_throws:
  "planner d i (planInput s) = Inr p \<Longrightarrow> plan_finish p = None \<Longrightarrow> plan_action p = Some a \<Longrightarrow>
   validateAction a = Inr v \<Longrightarrow> ok v \<Longrightarrow>
   executor d i (executorPayload d i (planned d i s p) p a) = Inl e \<Longrightarrow>
   iteration d i s = (catchBlock (executing d i (planned d i s p) p a) e, True)"
  by (cases d i s rule: iteration_cases) simp_all

lemma iteration_terminal:
  "planner d i (planInput s) = Inr p \<Longrightarrow> plan_finish p = None \<Longrightarrow> plan_action p = Some a \<Longrightarrow>
   validateAction a = Inr v \<Longrightarrow> ok v \<Longrightarrow>
   executor d i (executorPayload d i (planned d i s p) p a) = Inr ex \<Longrightarrow>
   exec_didTerminate ex = Some True \<Longrightarrow>
   iteration d i s =
     (concludeTask d
        (finaliseStep (executing d i (planned d i s p) p a)
           (newStep d i (planned d i s p) p) (exec_observation ex)) ex, True)"
  by (cases d i s rule: iteration_cases) simp_all

lemma iteration_continues:
  "planner d i (planInput s) = Inr p \<Longrightarrow> plan_finish p = None \<Longrightarrow> plan_action p = Some a \<Longrightarrow>
   validateAction a = Inr v \<Longrightarrow> ok v \<Longrightarrow>
   executor d i (executorPayload d i (planned d i s p) p a) = Inr ex \<Longrightarrow>
   exec_didTerminate ex \<noteq> Some True \<Longrightarrow>
   iteration d i s =
     (finaliseStep (executing d i (planned d i s p) p a)
        (newStep d i (planned d i s p) p) (exec_observation ex), False)"
  by (cases d i s rule: iteration_cases) simp_all

section \<open>What one iteration and the whole loop preserve\<close>

lemma createdIds_append [simp]: "createdIds (xs @ ys) = createdIds xs @ createdIds ys"
  by (induction xs rule: createdIds.induct) simp_all

lemma startedIds_append [simp]: "startedIds (xs @ ys) = startedIds xs @ startedIds ys"
  by (induction xs rule: startedIds.induct) simp_all

lemma loopEvents_append [simp]: "loopEvents (xs @ ys) = (loopEvents xs \<and> loopEvents ys)"
  by (auto simp: loopEvents_def)

lemma loopEvents_Nil [simp]: "loopEvents []"
  by (simp add: loopEvents_def)

lemma iteration_task_id: "task_id (o_task (fst (iteration d i s))) = task_id (o_task s)"
  by (cases d i s rule: iteration_cases) simp_all

lemma iteration_goal: "task_goal (o_task (fst (iteration d i s))) = task_goal (o_task s)"
  by (cases d i s rule: iteration_cases) simp_all

lemma iteration_status:
  "task_status (o_task (fst (iteration d i s))) =
     (if snd (iteration d i s)
      then task_status (o_task (fst (iteration d i s)))
      else task_status (o_task s)) \<and>
   (snd (iteration d i s) \<longrightarrow>
      task_status (o_task (fst (iteration d i s))) \<in> {Succeeded, Failed})"
  by (cases d i s rule: iteration_cases) simp_all

lemma iteration_steps:
  "task_steps (o_task (fst (iteration d i s))) = task_steps (o_task s) \<or>
   (\<exists>step. task_steps (o_task (fst (iteration d i s))) = task_steps (o_task s) @ [step] \<and>
      stepConsistent step \<and> validatedStep step \<and>
      step_index step = length (task_steps (o_task s)))"
  by (cases d i s rule: iteration_cases)
     (simp_all add: stepConsistent_def validatedStep_def)

lemma iteration_events:
  "\<exists>evs. o_events (fst (iteration d i s)) = o_events s @ evs \<and> loopEvents evs"
  by (cases d i s rule: iteration_cases)
     (simp_all add: planned_events planStep_throws_events loopEvents_def)


lemma runLoop_unfold:
  "runLoop d i s =
     (if i < maxSteps d
      then (if snd (iteration d i s) then fst (iteration d i s)
            else runLoop d (Suc i) (fst (iteration d i s)))
      else budgetExhausted d s)"
  by (subst runLoop.simps) (simp add: case_prod_beta)

lemma iterations_unfold:
  "iterations d i (Suc n) s =
     (if snd (iteration d i s) then (fst (iteration d i s), True)
      else iterations d (Suc i) n (fst (iteration d i s)))"
  by (simp add: case_prod_beta)

lemma iterations_task_id: "task_id (o_task (fst (iterations d i n s))) = task_id (o_task s)"
proof (induction n arbitrary: i s)
  case 0
  show ?case by simp
next
  case (Suc n)
  show ?case
    using Suc.IH[of "Suc i" "fst (iteration d i s)"] iteration_task_id[of d i s]
    by (simp only: iterations_unfold fst_conv split: if_splits) simp
qed

lemma iterations_goal: "task_goal (o_task (fst (iterations d i n s))) = task_goal (o_task s)"
proof (induction n arbitrary: i s)
  case 0
  show ?case by simp
next
  case (Suc n)
  show ?case
    using Suc.IH[of "Suc i" "fst (iteration d i s)"] iteration_goal[of d i s]
    by (simp only: iterations_unfold fst_conv split: if_splits) simp
qed

lemma iterations_status:
  "if snd (iterations d i n s)
   then task_status (o_task (fst (iterations d i n s))) \<in> {Succeeded, Failed}
   else task_status (o_task (fst (iterations d i n s))) = task_status (o_task s)"
proof (induction n arbitrary: i s)
  case 0
  show ?case by simp
next
  case (Suc n)
  show ?case
  proof (cases "snd (iteration d i s)")
    case True
    then show ?thesis using iteration_status[of d i s]
      by (simp only: iterations_unfold if_True fst_conv snd_conv)
  next
    case False
    then have "task_status (o_task (fst (iteration d i s))) = task_status (o_task s)"
      using iteration_status[of d i s] by simp
    with False Suc.IH[of "Suc i" "fst (iteration d i s)"] show ?thesis
      by (simp only: iterations_unfold if_False)
  qed
qed

lemma iterations_steps:
  "\<exists>new. task_steps (o_task (fst (iterations d i n s))) = task_steps (o_task s) @ new \<and>
      length new \<le> n \<and> list_all stepConsistent new \<and> list_all validatedStep new"
proof (induction n arbitrary: i s)
  case 0
  show ?case by simp
next
  case (Suc n)
  let ?s1 = "fst (iteration d i s)"
  obtain new1 where st1: "task_steps (o_task ?s1) = task_steps (o_task s) @ new1"
      "length new1 \<le> 1" "list_all stepConsistent new1" "list_all validatedStep new1"
  proof -
    from iteration_steps[of d i s]
    consider "task_steps (o_task ?s1) = task_steps (o_task s) @ []"
      | step where "task_steps (o_task ?s1) = task_steps (o_task s) @ [step]"
          "stepConsistent step" "validatedStep step"
      by auto
    then show ?thesis
    proof cases
      case 1
      then show ?thesis using that[of "[]"] by simp
    next
      case (2 step)
      then show ?thesis using that[of "[step]"] by simp
    qed
  qed
  show ?case
  proof (cases "snd (iteration d i s)")
    case True
    have "length new1 \<le> Suc n" using st1(2) by simp
    with st1 have all1: "task_steps (o_task ?s1) = task_steps (o_task s) @ new1 \<and>
      length new1 \<le> Suc n \<and> list_all stepConsistent new1 \<and> list_all validatedStep new1"
      by simp
    have res: "fst (iterations d i (Suc n) s) = ?s1"
      using True by (simp only: iterations_unfold if_True fst_conv)
    show ?thesis unfolding res by (rule exI[of _ new1]) (rule all1)
  next
    case False
    from Suc.IH[of "Suc i" ?s1] obtain new2 where ih:
      "task_steps (o_task (fst (iterations d (Suc i) n ?s1))) = task_steps (o_task ?s1) @ new2"
      "length new2 \<le> n" "list_all stepConsistent new2" "list_all validatedStep new2"
      by auto
    have all2: "task_steps (o_task (fst (iterations d (Suc i) n ?s1))) =
            task_steps (o_task s) @ (new1 @ new2) \<and>
          length (new1 @ new2) \<le> Suc n \<and> list_all stepConsistent (new1 @ new2) \<and>
          list_all validatedStep (new1 @ new2)"
      using ih st1 by simp
    have res: "iterations d i (Suc n) s = iterations d (Suc i) n ?s1"
      using False by (simp only: iterations_unfold if_False)
    show ?thesis unfolding res by (rule exI[of _ "new1 @ new2"]) (rule all2)
  qed
qed

lemma iterations_events:
  "\<exists>evs. o_events (fst (iterations d i n s)) = o_events s @ evs \<and> loopEvents evs"
proof (induction n arbitrary: i s)
  case 0
  show ?case by simp
next
  case (Suc n)
  let ?s1 = "fst (iteration d i s)"
  obtain evs1 where ev1: "o_events ?s1 = o_events s @ evs1" "loopEvents evs1"
    using iteration_events[of d i s] by auto
  show ?case
  proof (cases "snd (iteration d i s)")
    case True
    from ev1 have all1: "o_events ?s1 = o_events s @ evs1 \<and> loopEvents evs1" by simp
    have res: "fst (iterations d i (Suc n) s) = ?s1"
      using True by (simp only: iterations_unfold if_True fst_conv)
    show ?thesis unfolding res by (rule exI[of _ evs1]) (rule all1)
  next
    case False
    from Suc.IH[of "Suc i" ?s1] obtain evs2 where ih:
      "o_events (fst (iterations d (Suc i) n ?s1)) = o_events ?s1 @ evs2" "loopEvents evs2"
      by auto
    have all2: "o_events (fst (iterations d (Suc i) n ?s1)) = o_events s @ (evs1 @ evs2) \<and>
          loopEvents (evs1 @ evs2)"
      using ih ev1 by simp
    have res: "iterations d i (Suc n) s = iterations d (Suc i) n ?s1"
      using False by (simp only: iterations_unfold if_False)
    show ?thesis unfolding res by (rule exI[of _ "evs1 @ evs2"]) (rule all2)
  qed
qed

lemma runLoop_iterations_aux:
  "maxSteps d - i = n \<Longrightarrow>
   runLoop d i s =
     (if snd (iterations d i n s) then fst (iterations d i n s)
      else budgetExhausted d (fst (iterations d i n s)))"
proof (induction n arbitrary: i s)
  case 0
  then have "\<not> i < maxSteps d" by simp
  then show ?case by (subst runLoop_unfold) simp
next
  case (Suc n)
  then have lt: "i < maxSteps d" and n: "maxSteps d - Suc i = n" by simp_all
  show ?case
  proof (cases "snd (iteration d i s)")
    case True
    then show ?thesis using lt
      by (subst runLoop_unfold) (simp only: iterations_unfold if_True fst_conv snd_conv)
  next
    case False
    then show ?thesis using lt Suc.IH[OF n, of "fst (iteration d i s)"]
      by (subst runLoop_unfold) (simp only: iterations_unfold if_True if_False)
  qed
qed

lemma runLoop_iterations:
  "runLoop d i s =
     (if snd (iterations d i (maxSteps d - i) s) then fst (iterations d i (maxSteps d - i) s)
      else budgetExhausted d (fst (iterations d i (maxSteps d - i) s)))"
  by (rule runLoop_iterations_aux) simp

lemma summaryText_plain:
  "summaryText str t \<lparr>obs_result = r, obs_message = m, obs_data = None\<rparr> =
     ''Goal: '' @ task_goal t @ [CHR 0x0A] @ ''Result: '' @ upperResult r @ [CHR 0x0A] @ m"
  by (simp add: summaryText_def)

lemma budgetExhausted_simps [simp]:
  "o_task (budgetExhausted d s) =
     (o_task s)\<lparr>task_status := Failed,
       task_lastError := Some (''Goal: '' @ task_goal (o_task s) @ [CHR 0x0A] @
                                ''Result: ERROR'' @ [CHR 0x0A] @ maxStepMessage),
       task_summary := Some (''Goal: '' @ task_goal (o_task s) @ [CHR 0x0A] @
                              ''Result: ERROR'' @ [CHR 0x0A] @ maxStepMessage)\<rparr>"
  "o_events (budgetExhausted d s) =
     o_events s @
       [TaskFailed (task_id (o_task s))
          (''Goal: '' @ task_goal (o_task s) @ [CHR 0x0A] @
           ''Result: ERROR'' @ [CHR 0x0A] @ maxStepMessage)]"
  by (simp_all add: budgetExhausted_def case_prod_beta summaryText_plain upperResult_def)

section \<open>Properties of the scheduler\<close>

lemma onTask_stored:
  "rt_tasks st i = Some t \<Longrightarrow>
   onTask f i st =
     st\<lparr>rt_tasks := (rt_tasks st)
            (i \<mapsto> o_task (f \<lparr>o_task = t, o_memory = rt_memory st, o_events = rt_events st\<rparr>)),
        rt_memory := o_memory (f \<lparr>o_task = t, o_memory = rt_memory st, o_events = rt_events st\<rparr>),
        rt_events := o_events (f \<lparr>o_task = t, o_memory = rt_memory st, o_events = rt_events st\<rparr>)\<rparr>"
  by (simp add: onTask_def Let_def)

lemma statusOf_update:
  "statusOf (st\<lparr>rt_tasks := (rt_tasks st)(i \<mapsto> t)\<rparr>) = (statusOf st)(i \<mapsto> task_status t)"
  by (rule ext) (simp add: statusOf_def)

lemma statusOf_other_fields [simp]:
  "statusOf (st\<lparr>rt_queue := q\<rparr>) = statusOf st"
  "statusOf (st\<lparr>rt_activeTaskIds := a\<rparr>) = statusOf st"
  "statusOf (st\<lparr>rt_memory := m\<rparr>) = statusOf st"
  "statusOf (st\<lparr>rt_events := es\<rparr>) = statusOf st"
  by (rule ext, simp add: statusOf_def)+

lemma runStart_simps [simp]:
  "o_task (runStart s) = (o_task s)\<lparr>task_status := Running\<rparr>"
  "o_events (runStart s) = o_events s @ [TaskStarted (task_id (o_task s))]"
  "o_memory (runStart s) = o_memory s"
  by (simp_all add: runStart_def)

lemma drainQueue_stop:
  "\<not> (length (rt_activeTaskIds st) < limit \<and> rt_queue st \<noteq> []) \<Longrightarrow> drainQueue limit st = st"
  by (subst drainQueue.simps) auto

lemma drainQueue_start:
  "length (rt_activeTaskIds st) < limit \<Longrightarrow> rt_queue st = q # qs \<Longrightarrow>
   drainQueue limit st =
     drainQueue limit
       (onTask runStart q
          (st\<lparr>rt_queue := qs, rt_activeTaskIds := setAdd (rt_activeTaskIds st) q\<rparr>))"
  by (subst drainQueue.simps) (simp add: Let_def)

text \<open>Starting the head of the queue keeps the bookkeeping right.\<close>

lemma start_head:
  assumes inv: "schedulerInvariant limit st"
    and room: "length (rt_activeTaskIds st) < limit"
    and queue: "rt_queue st = q # qs"
  defines "st' \<equiv> onTask runStart q
                    (st\<lparr>rt_queue := qs, rt_activeTaskIds := setAdd (rt_activeTaskIds st) q\<rparr>)"
  shows "schedulerInvariant limit st'"
    and "rt_queue st' = qs"
    and "rt_activeTaskIds st' = rt_activeTaskIds st @ [q]"
    and "tasksInvariant bound st \<Longrightarrow> tasksInvariant bound st'"
proof -
  from inv queue have pending: "statusOf st q = Some Pending"
    by (simp add: schedulerInvariant_def)
  then obtain t where t: "rt_tasks st q = Some t" "task_status t = Pending"
    by (auto simp: statusOf_def)
  from inv t have tid: "task_id t = q" by (simp add: schedulerInvariant_def)
  from inv queue have fresh: "q \<notin> set (rt_activeTaskIds st)" "q \<notin> set qs" "distinct qs"
    by (auto simp: schedulerInvariant_def)
  have add: "setAdd (rt_activeTaskIds st) q = rt_activeTaskIds st @ [q]"
    using fresh by (simp add: setAdd_def)
  have expl: "st' = st\<lparr>rt_queue := qs, rt_activeTaskIds := rt_activeTaskIds st @ [q],
                        rt_tasks := (rt_tasks st)(q \<mapsto> t\<lparr>task_status := Running\<rparr>),
                        rt_memory := rt_memory st,
                        rt_events := rt_events st @ [TaskStarted q]\<rparr>"
    unfolding st'_def using t tid by (simp add: onTask_stored add)
  show q': "rt_queue st' = qs" by (simp add: expl)
  show a': "rt_activeTaskIds st' = rt_activeTaskIds st @ [q]" by (simp add: expl)
  have tasks': "rt_tasks st' = (rt_tasks st)(q \<mapsto> t\<lparr>task_status := Running\<rparr>)"
    by (simp add: expl)
  have status': "statusOf st' = (statusOf st)(q \<mapsto> Running)"
    by (rule ext) (simp add: statusOf_def tasks')
  have events': "rt_events st' = rt_events st @ [TaskStarted q]" by (simp add: expl)
  have running': "runningIds st' \<subseteq> insert q (runningIds st)"
    by (auto simp: runningIds_def status')
  show "schedulerInvariant limit st'"
    unfolding schedulerInvariant_def q' a' events' status'
  proof (intro conjI)
    show "distinct (rt_activeTaskIds st @ [q])"
      using inv fresh by (simp add: schedulerInvariant_def)
    show "length (rt_activeTaskIds st @ [q]) \<le> limit" using room by simp
    show "\<forall>i u. rt_tasks st' i = Some u \<longrightarrow> task_id u = i"
      using inv tid by (auto simp: tasks' schedulerInvariant_def)
    show "set (rt_activeTaskIds st @ [q]) \<subseteq> dom (rt_tasks st')"
      using inv t by (auto simp: tasks' schedulerInvariant_def)
    show "distinct qs" by (rule fresh)
    show "set qs \<inter> set (rt_activeTaskIds st @ [q]) = {}"
      using inv queue fresh by (auto simp: schedulerInvariant_def)
    show "\<forall>i\<in>set qs. ((statusOf st)(q \<mapsto> Running)) i = Some Pending"
      using inv queue fresh by (auto simp: schedulerInvariant_def)
    show "runningIds st' \<subseteq> set (rt_activeTaskIds st @ [q])"
      using running' inv by (auto simp: schedulerInvariant_def)
    show "createdIds (rt_events st @ [TaskStarted q]) =
          startedIds (rt_events st @ [TaskStarted q]) @ qs"
      using inv queue by (simp add: schedulerInvariant_def)
  qed
  show "tasksInvariant bound st'" if "tasksInvariant bound st"
    using that t unfolding tasksInvariant_def tasks' by auto
qed

lemma drainQueue_invariant:
  "schedulerInvariant limit st \<Longrightarrow>
   schedulerInvariant limit (drainQueue limit st) \<and> saturated limit (drainQueue limit st) \<and>
   (tasksInvariant bound st \<longrightarrow> tasksInvariant bound (drainQueue limit st))"
proof (induction "length (rt_queue st)" arbitrary: st)
  case 0
  then have "drainQueue limit st = st" by (intro drainQueue_stop) simp
  with 0 show ?case by (simp add: saturated_def)
next
  case (Suc n)
  then obtain q qs where queue: "rt_queue st = q # qs" by (cases "rt_queue st") auto
  show ?case
  proof (cases "length (rt_activeTaskIds st) < limit")
    case False
    then have "drainQueue limit st = st" by (intro drainQueue_stop) simp
    with Suc.prems False show ?thesis by (simp add: saturated_def)
  next
    case True
    let ?st' = "onTask runStart q
                  (st\<lparr>rt_queue := qs, rt_activeTaskIds := setAdd (rt_activeTaskIds st) q\<rparr>)"
    note head = start_head[OF Suc.prems True queue]
    have "n = length (rt_queue ?st')" using Suc.hyps(2) queue head(2) by simp
    from Suc.hyps(1)[OF this head(1)] head(4)[of bound] show ?thesis
      by (simp add: drainQueue_start[OF True queue])
  qed
qed


lemma runLoop_task_id: "task_id (o_task (runLoop d i s)) = task_id (o_task s)"
  by (simp add: runLoop_iterations iterations_task_id)

lemma runLoop_status: "task_status (o_task (runLoop d i s)) \<in> {Succeeded, Failed}"
  using iterations_status[of d i "maxSteps d - i" s]
  by (simp add: runLoop_iterations split: if_splits)

lemma runLoop_steps:
  "\<exists>new. task_steps (o_task (runLoop d i s)) = task_steps (o_task s) @ new \<and>
     length new \<le> maxSteps d - i \<and> list_all stepConsistent new \<and> list_all validatedStep new"
  using iterations_steps[of d i "maxSteps d - i" s]
  by (simp add: runLoop_iterations)

lemma runLoop_events:
  "\<exists>evs. o_events (runLoop d i s) = o_events s @ evs \<and> loopEvents evs"
proof -
  obtain evs where evs: "o_events (fst (iterations d i (maxSteps d - i) s)) = o_events s @ evs"
      "loopEvents evs"
    using iterations_events[of d i "maxSteps d - i" s] by auto
  show ?thesis
  proof (cases "snd (iterations d i (maxSteps d - i) s)")
    case True
    then show ?thesis using evs by (simp add: runLoop_iterations)
  next
    case False
    then have "o_events (runLoop d i s) =
        o_events s @ (evs @ [TaskFailed (task_id (o_task s))
          (''Goal: '' @ task_goal (o_task (fst (iterations d i (maxSteps d - i) s))) @ [CHR 0x0A] @
           ''Result: ERROR'' @ [CHR 0x0A] @ maxStepMessage)])"
      using evs by (simp add: runLoop_iterations iterations_task_id)
    moreover have "loopEvents (evs @ [TaskFailed (task_id (o_task s))
          (''Goal: '' @ task_goal (o_task (fst (iterations d i (maxSteps d - i) s))) @ [CHR 0x0A] @
           ''Result: ERROR'' @ [CHR 0x0A] @ maxStepMessage)])"
      using evs(2) by (simp add: loopEvents_def)
    ultimately show ?thesis by blast
  qed
qed

lemma initial_invariant:
  "schedulerInvariant limit initialState \<and> saturated limit initialState \<and>
   tasksInvariant bound initialState"
  by (simp add: schedulerInvariant_def saturated_def tasksInvariant_def initialState_def
      runningIds_def statusOf_def)

lemma createTask_invariant:
  assumes inv: "schedulerInvariant (parallelLimit rt) st"
    and tasks: "tasksInvariant bound st"
    and fresh: "rt_tasks st uuid = None"
    and created: "createTask rt goal context uuid st = Inr st'"
  shows "schedulerInvariant (parallelLimit rt) st' \<and> saturated (parallelLimit rt) st' \<and>
         tasksInvariant bound st'"
proof -
  let ?task = "\<lparr>task_id = uuid, task_goal = goal, task_status = Pending, task_steps = [],
                task_summary = None, task_context = context, task_lastError = None\<rparr>"
  let ?queued = "st\<lparr>rt_tasks := (rt_tasks st)(uuid \<mapsto> ?task),
                     rt_events := rt_events st @ [TaskCreated ?task],
                     rt_queue := rt_queue st @ [uuid]\<rparr>"
  have st': "st' = drainQueue (parallelLimit rt) ?queued"
    using created by (simp add: createTask_def enqueue_def Let_def split: if_splits)
  have notq: "uuid \<notin> set (rt_queue st)"
    using inv fresh by (auto simp: schedulerInvariant_def statusOf_def)
  have nota: "uuid \<notin> set (rt_activeTaskIds st)"
    using inv fresh by (auto simp: schedulerInvariant_def)
  have status: "statusOf ?queued = (statusOf st)(uuid \<mapsto> Pending)"
    by (rule ext) (simp add: statusOf_def)
  have running: "runningIds ?queued = runningIds st"
    using fresh by (auto simp: runningIds_def status statusOf_def)
  have "schedulerInvariant (parallelLimit rt) ?queued"
    unfolding schedulerInvariant_def running status
    using inv notq nota by (auto simp: schedulerInvariant_def)
  moreover have "tasksInvariant bound ?queued"
    using tasks by (auto simp: tasksInvariant_def)
  ultimately show ?thesis
    unfolding st' using drainQueue_invariant[of "parallelLimit rt" ?queued bound] by blast
qed

lemma runReturns_invariant:
  assumes inv: "schedulerInvariant limit st"
    and tasks: "tasksInvariant (maxSteps d) st"
    and active: "i \<in> set (rt_activeTaskIds st)"
    and running: "statusOf st i = Some Running"
  shows "schedulerInvariant limit (onTask (runLoop d 0) i st) \<and>
         tasksInvariant (maxSteps d) (onTask (runLoop d 0) i st) \<and>
         rt_queue (onTask (runLoop d 0) i st) = rt_queue st \<and>
         rt_activeTaskIds (onTask (runLoop d 0) i st) = rt_activeTaskIds st"
proof -
  from running obtain t where t: "rt_tasks st i = Some t" "task_status t = Running"
    by (auto simp: statusOf_def)
  let ?view = "\<lparr>o_task = t, o_memory = rt_memory st, o_events = rt_events st\<rparr>"
  let ?s = "runLoop d 0 ?view"
  let ?st' = "onTask (runLoop d 0) i st"
  have expl: "?st' = st\<lparr>rt_tasks := (rt_tasks st)(i \<mapsto> o_task ?s),
                         rt_memory := o_memory ?s, rt_events := o_events ?s\<rparr>"
    using t by (simp add: onTask_stored)
  from inv t have tid: "task_id t = i" by (simp add: schedulerInvariant_def)
  have id': "task_id (o_task ?s) = i" using runLoop_task_id[of d 0 ?view] tid by simp
  have ended: "task_status (o_task ?s) \<in> {Succeeded, Failed}" by (rule runLoop_status)
  from tasks t have nosteps: "task_steps t = []" by (auto simp: tasksInvariant_def)
  obtain new where new: "task_steps (o_task ?s) = new" "length new \<le> maxSteps d"
      "list_all stepConsistent new" "list_all validatedStep new"
    using runLoop_steps[of d 0 ?view] nosteps by auto
  obtain evs where evs: "o_events ?s = rt_events st @ evs" "loopEvents evs"
    using runLoop_events[of d 0 ?view] by auto
  have q': "rt_queue ?st' = rt_queue st" and a': "rt_activeTaskIds ?st' = rt_activeTaskIds st"
    by (simp_all add: expl)
  have tasks': "rt_tasks ?st' = (rt_tasks st)(i \<mapsto> o_task ?s)" by (simp add: expl)
  have status': "statusOf ?st' = (statusOf st)(i \<mapsto> task_status (o_task ?s))"
    by (rule ext) (simp add: statusOf_def tasks')
  have events': "rt_events ?st' = rt_events st @ evs" using evs by (simp add: expl)
  have run': "runningIds ?st' \<subseteq> runningIds st"
    using ended by (auto simp: runningIds_def status' split: if_splits)
  have notq: "i \<notin> set (rt_queue st)" using inv active by (auto simp: schedulerInvariant_def)
  have "schedulerInvariant limit ?st'"
    unfolding schedulerInvariant_def q' a' events' status'
  proof (intro conjI)
    show "\<forall>j u. rt_tasks ?st' j = Some u \<longrightarrow> task_id u = j"
      using inv id' by (auto simp: tasks' schedulerInvariant_def)
    show "set (rt_activeTaskIds st) \<subseteq> dom (rt_tasks ?st')"
      using inv by (auto simp: tasks' schedulerInvariant_def)
    show "\<forall>j\<in>set (rt_queue st). ((statusOf st)(i \<mapsto> task_status (o_task ?s))) j = Some Pending"
      using inv notq by (auto simp: schedulerInvariant_def)
    show "runningIds ?st' \<subseteq> set (rt_activeTaskIds st)"
      using run' inv by (auto simp: schedulerInvariant_def)
    show "createdIds (rt_events st @ evs) = startedIds (rt_events st @ evs) @ rt_queue st"
      using inv evs(2) by (simp add: schedulerInvariant_def loopEvents_def)
  qed (use inv in \<open>simp_all add: schedulerInvariant_def\<close>)
  moreover have "tasksInvariant (maxSteps d) ?st'"
    unfolding tasksInvariant_def tasks' using tasks new ended
    by (auto simp: tasksInvariant_def)
  ultimately show ?thesis using q' a' by simp
qed

lemma runTaskCatch_stored:
  "rt_tasks st i = Some t \<Longrightarrow>
   runTaskCatch i e st =
     st\<lparr>rt_tasks := (rt_tasks st)
            (i \<mapsto> t\<lparr>task_status := Failed,
                     task_lastError := Some (case e of JsError m \<Rightarrow> m
                                             | NonError \<Rightarrow> ''Unknown orchestrator error.'')\<rparr>),
        rt_events := rt_events st @
            [TaskFailed i (case e of JsError m \<Rightarrow> m
                           | NonError \<Rightarrow> ''Unknown orchestrator error.'')]\<rparr>"
  by (simp add: runTaskCatch_def Let_def)

lemma runThrows_invariant:
  assumes inv: "schedulerInvariant limit st"
    and tasks: "tasksInvariant bound st"
    and active: "i \<in> set (rt_activeTaskIds st)"
    and running: "statusOf st i = Some Running"
  shows "schedulerInvariant limit (runTaskCatch i e st) \<and>
         tasksInvariant bound (runTaskCatch i e st) \<and>
         rt_queue (runTaskCatch i e st) = rt_queue st \<and>
         rt_activeTaskIds (runTaskCatch i e st) = rt_activeTaskIds st"
proof -
  from running obtain t where t: "rt_tasks st i = Some t" "task_status t = Running"
    by (auto simp: statusOf_def)
  let ?m = "case e of JsError m \<Rightarrow> m | NonError \<Rightarrow> ''Unknown orchestrator error.''"
  let ?t' = "t\<lparr>task_status := Failed, task_lastError := Some ?m\<rparr>"
  let ?st' = "runTaskCatch i e st"
  have expl: "?st' = st\<lparr>rt_tasks := (rt_tasks st)(i \<mapsto> ?t'),
                         rt_events := rt_events st @ [TaskFailed i ?m]\<rparr>"
    using t by (simp add: runTaskCatch_stored)
  from inv t have tid: "task_id t = i" by (simp add: schedulerInvariant_def)
  have q': "rt_queue ?st' = rt_queue st" and a': "rt_activeTaskIds ?st' = rt_activeTaskIds st"
    by (simp_all add: expl)
  have tasks': "rt_tasks ?st' = (rt_tasks st)(i \<mapsto> ?t')" by (simp add: expl)
  have status': "statusOf ?st' = (statusOf st)(i \<mapsto> Failed)"
    by (rule ext) (simp add: statusOf_def tasks')
  have events': "rt_events ?st' = rt_events st @ [TaskFailed i ?m]" by (simp add: expl)
  have run': "runningIds ?st' \<subseteq> runningIds st"
    by (auto simp: runningIds_def status' split: if_splits)
  have notq: "i \<notin> set (rt_queue st)" using inv active by (auto simp: schedulerInvariant_def)
  have "schedulerInvariant limit ?st'"
    unfolding schedulerInvariant_def q' a' events' status'
  proof (intro conjI)
    show "\<forall>j u. rt_tasks ?st' j = Some u \<longrightarrow> task_id u = j"
      using inv tid by (auto simp: tasks' schedulerInvariant_def)
    show "set (rt_activeTaskIds st) \<subseteq> dom (rt_tasks ?st')"
      using inv by (auto simp: tasks' schedulerInvariant_def)
    show "\<forall>j\<in>set (rt_queue st). ((statusOf st)(i \<mapsto> Failed)) j = Some Pending"
      using inv notq by (auto simp: schedulerInvariant_def)
    show "runningIds ?st' \<subseteq> set (rt_activeTaskIds st)"
      using run' inv by (auto simp: schedulerInvariant_def)
    show "createdIds (rt_events st @ [TaskFailed i ?m]) =
          startedIds (rt_events st @ [TaskFailed i ?m]) @ rt_queue st"
      using inv by (simp add: schedulerInvariant_def)
  qed (use inv in \<open>simp_all add: schedulerInvariant_def\<close>)
  moreover have "tasksInvariant bound ?st'"
    unfolding tasksInvariant_def tasks' using tasks t
    by (auto simp: tasksInvariant_def)
  ultimately show ?thesis using q' a' by simp
qed

lemma release_invariant:
  assumes inv: "schedulerInvariant limit st"
    and ended: "statusOf st i \<in> {Some Succeeded, Some Failed}"
  shows "schedulerInvariant limit (st\<lparr>rt_activeTaskIds := setDelete (rt_activeTaskIds st) i\<rparr>)"
proof -
  have "i \<notin> runningIds st" using ended by (auto simp: runningIds_def)
  then show ?thesis using inv
    by (auto simp: schedulerInvariant_def setDelete_def runningIds_def
        intro: le_trans[OF length_filter_le])
qed

lemma runSettled_invariant:
  assumes inv: "schedulerInvariant (parallelLimit rt) st"
    and tasks: "tasksInvariant bound st"
    and ended: "statusOf st i \<in> {Some Succeeded, Some Failed}"
  shows "schedulerInvariant (parallelLimit rt) (runSettled rt i st) \<and>
         saturated (parallelLimit rt) (runSettled rt i st) \<and>
         tasksInvariant bound (runSettled rt i st)"
proof -
  let ?released = "st\<lparr>rt_activeTaskIds := setDelete (rt_activeTaskIds st) i\<rparr>"
  have "tasksInvariant bound ?released" using tasks by (simp add: tasksInvariant_def)
  with release_invariant[OF inv ended]
    drainQueue_invariant[of "parallelLimit rt" ?released bound]
  show ?thesis by (simp add: runSettled_def)
qed

text \<open>Every state a runtime can reach keeps the three invariants.\<close>

lemma reachable_invariant:
  "reachable rt st \<Longrightarrow>
   schedulerInvariant (parallelLimit rt) st \<and> saturated (parallelLimit rt) st \<and>
   tasksInvariant (maxSteps (orchestrator rt)) st"
proof (induction rule: reachable.induct)
  case reachable_initial
  show ?case by (rule initial_invariant)
next
  case (reachable_step st call)
  then have inv: "schedulerInvariant (parallelLimit rt) st"
    and sat: "saturated (parallelLimit rt) st"
    and tasks: "tasksInvariant (maxSteps (orchestrator rt)) st" by simp_all
  show ?case
  proof (cases call)
    case (CreateTask goal ctx uuid)
    show ?thesis
    proof (cases "rt_tasks st uuid = None \<and> (\<exists>st'. createTask rt goal ctx uuid st = Inr st')")
      case True
      then obtain st' where c: "createTask rt goal ctx uuid st = Inr st'" by blast
      with True createTask_invariant[OF inv tasks _ c] CreateTask show ?thesis by simp
    next
      case False
      then have "runtimeStep rt call st = st"
        using CreateTask by (cases "createTask rt goal ctx uuid st") auto
      with inv sat tasks show ?thesis by simp
    qed
  next
    case (RunReturns i)
    show ?thesis
    proof (cases "i \<in> set (rt_activeTaskIds st) \<and> statusOf st i = Some Running")
      case True
      with runReturns_invariant[OF inv tasks, of i] sat RunReturns show ?thesis
        by (simp add: saturated_def)
    next
      case False
      with inv sat tasks RunReturns show ?thesis by auto
    qed
  next
    case (RunThrows i e)
    show ?thesis
    proof (cases "i \<in> set (rt_activeTaskIds st) \<and> statusOf st i = Some Running")
      case True
      with runThrows_invariant[OF inv tasks, of i e] sat RunThrows show ?thesis
        by (simp add: saturated_def)
    next
      case False
      with inv sat tasks RunThrows show ?thesis by auto
    qed
  next
    case (RunSettled i)
    show ?thesis
    proof (cases "i \<in> set (rt_activeTaskIds st) \<and>
                  statusOf st i \<in> {Some Succeeded, Some Failed}")
      case True
      with runSettled_invariant[OF inv tasks, of i] RunSettled show ?thesis by simp
    next
      case False
      with inv sat tasks RunSettled show ?thesis by auto
    qed
  qed
qed


lemma reachable_runCalls: "reachable rt st \<Longrightarrow> reachable rt (runCalls rt calls st)"
  by (induction calls arbitrary: st) (simp_all add: reachable_step)

section \<open>Errors inside the loop\<close>

text \<open>What the memory holds when an error is raised.\<close>

lemma remember_other:
  "other \<noteq> taskId \<Longrightarrow> remember m taskId entry other = m other"
  by (simp add: remember_def)

lemma planStep_throws_memory:
  "planner d i (planInput s) = Inl e \<Longrightarrow> o_memory (fst (planStep d i s)) = o_memory s"
  by (simp add: planStep_throws)

lemma planned_memory:
  assumes "planner d i (planInput s) = Inr p"
  shows "entriesOf (o_memory (planned d i s p)) (task_id (o_task s)) =
           entriesOf (o_memory s) (task_id (o_task s)) @
             \<lparr>entry_type = Thought, entry_content = plan_thought p, entry_metadata = None\<rparr> #
             (case plan_caution p of
                None \<Rightarrow> []
              | Some c \<Rightarrow>
                  if c = [] then []
                  else [\<lparr>entry_type = Thought, entry_content = ''Safety note: '' @ c,
                         entry_metadata = None\<rparr>])"
    and "other \<noteq> task_id (o_task s) \<Longrightarrow> o_memory (planned d i s p) other = o_memory s other"
  using assms
  by (simp_all add: planned_def planStep_returns noteCaution_def remember_other
      split: option.splits)

lemma executing_memory:
  "o_memory (executing d i s p a) =
     remember (o_memory s) (task_id (o_task s))
       \<lparr>entry_type = ActionEntry,
        entry_content = action_type a @ '' -> '' @ stringify d (JObject (action_params a)),
        entry_metadata = None\<rparr>"
  by (simp add: executing_def executeStep_def Let_def)

lemma failsWith_caught:
  assumes "iteration d i s = (catchBlock raised e, True)"
    and "task_id (o_task raised) = task_id (o_task s)"
    and "o_events raised = o_events s @ evs"
    and "\<exists>added. entriesOf (o_memory raised) (task_id (o_task s)) =
           entriesOf (o_memory s) (task_id (o_task s)) @ added"
    and "\<And>other. other \<noteq> task_id (o_task s) \<Longrightarrow> o_memory raised other = o_memory s other"
  shows "failsWith d i s raised (errorMessage e)"
proof -
  from assms(4) obtain added where
    "entriesOf (o_memory raised) (task_id (o_task s)) =
       entriesOf (o_memory s) (task_id (o_task s)) @ added" ..
  then show ?thesis
    unfolding failsWith_def assms(1)
    by (simp add: assms(2,3,5) remember_def)
qed

lemma planner_throws_fails:
  "planner d i (planInput s) = Inl e \<Longrightarrow>
   failsWith d i s (fst (planStep d i s)) (errorMessage e)"
  by (rule failsWith_caught[OF iteration_planner_throws])
     (simp_all add: planStep_throws_events planStep_throws_memory)

lemma no_directive_fails:
  assumes "planner d i (planInput s) = Inr p" "plan_finish p = None" "plan_action p = None"
  shows "failsWith d i s (planned d i s p)
           ''Agent returned neither an action nor a finish directive.''"
proof -
  have "failsWith d i s (planned d i s p)
      (errorMessage (JsError ''Agent returned neither an action nor a finish directive.''))"
    by (rule failsWith_caught[OF iteration_no_directive[OF assms]])
       (simp_all add: planned_events[OF assms(1)] planned_memory[OF assms(1)])
  then show ?thesis by (simp add: errorMessage_def)
qed

lemma invalid_action_fails:
  assumes "planner d i (planInput s) = Inr p" "plan_finish p = None" "plan_action p = Some a"
    and "validateAction a = Inr v" "\<not> ok v"
  shows "failsWith d i s (planned d i s p) (invalidActionMessage v)"
proof -
  have "failsWith d i s (planned d i s p) (errorMessage (JsError (invalidActionMessage v)))"
    by (rule failsWith_caught[OF iteration_invalid[OF assms]])
       (simp_all add: planned_events[OF assms(1)] planned_memory[OF assms(1)])
  then show ?thesis by (simp add: errorMessage_def)
qed

lemma validator_throws_fails:
  assumes "planner d i (planInput s) = Inr p" "plan_finish p = None" "plan_action p = Some a"
    and "validateAction a = Inl e"
  shows "failsWith d i s (planned d i s p) (errorMessage e)"
  by (rule failsWith_caught[OF iteration_validator_throws[OF assms]])
     (simp_all add: planned_events[OF assms(1)] planned_memory[OF assms(1)])

lemma executor_throws_fails:
  assumes "planner d i (planInput s) = Inr p" "plan_finish p = None" "plan_action p = Some a"
    and "validateAction a = Inr v" "ok v"
    and "executor d i (executorPayload d i (planned d i s p) p a) = Inl e"
  shows "failsWith d i s (executing d i (planned d i s p) p a) (errorMessage e)"
  by (rule failsWith_caught[OF iteration_executor_throws[OF assms]])
     (simp_all add: planned_events[OF assms(1)] planned_memory[OF assms(1)]
        executing_memory remember_other)

lemma plan_unparsable:
  "\<not> truthy (parseJsonFromText jsonParse answer) \<Longrightarrow>
   plan jsonParse asPlanOutput True (Inr answer) =
     Inl (JsError ''Agent model returned an unparsable response. Expected JSON payload.'')"
  by (simp add: plan_def)

text \<open>
  C10. Whatever throws inside the loop of \<open>run\<close> takes the one path of the \<open>catch\<close>
  clause (\<open>failsWith\<close>): \<open>lastError\<close> is set to the message, the observation entry
  \<open>Error: message\<close> is appended to the entries the memory holds for the task when the
  error is raised, \<open>task-error\<close> and then \<open>task-failed\<close> are emitted after the
  events emitted so far, the task is \<open>failed\<close> and \<open>run\<close> returns; nothing else
  of the task, the memory or the events changes. This holds for a planner that throws
  (the state is that after \<open>planning-started\<close>), in particular on an unparsable
  answer; for a plan with neither action nor finish, for an action that fails
  validation and for a validator that throws (the state is that after the plan has
  been recorded); and for an executor that throws (the state is that in which the
  executor was called, with the step created and the action remembered).
\<close>

theorem loop_errors_take_one_path:
  "(planner d i (planInput s) = Inl e \<longrightarrow>
      failsWith d i s (fst (planStep d i s)) (errorMessage e) \<and>
      o_memory (fst (planStep d i s)) = o_memory s) \<and>
   (planner d i (planInput s) = plan jsonParse asPlanOutput True (Inr answer) \<and>
      \<not> truthy (parseJsonFromText jsonParse answer) \<longrightarrow>
      failsWith d i s (fst (planStep d i s))
        ''Agent model returned an unparsable response. Expected JSON payload.'') \<and>
   (planner d i (planInput s) = Inr p \<and> plan_finish p = None \<and> plan_action p = None \<longrightarrow>
      failsWith d i s (planned d i s p)
        ''Agent returned neither an action nor a finish directive.'') \<and>
   (planner d i (planInput s) = Inr p \<and> plan_finish p = None \<and> plan_action p = Some a \<and>
      validateAction a = Inr v \<and> \<not> ok v \<longrightarrow>
      failsWith d i s (planned d i s p) (invalidActionMessage v)) \<and>
   (planner d i (planInput s) = Inr p \<and> plan_finish p = None \<and> plan_action p = Some a \<and>
      validateAction a = Inl e \<longrightarrow>
      failsWith d i s (planned d i s p) (errorMessage e)) \<and>
   (planner d i (planInput s) = Inr p \<and> plan_finish p = None \<and> plan_action p = Some a \<and>
      validateAction a = Inr v \<and> ok v \<and>
      executor d i (executorPayload d i (planned d i s p) p a) = Inl e \<longrightarrow>
      failsWith d i s (executing d i (planned d i s p) p a) (errorMessage e)) \<and>
   (\<forall>raised message. failsWith d i s raised message \<longrightarrow>
      snd (iteration d i s) \<and>
      task_status (o_task (fst (iteration d i s))) = Failed \<and>
      task_lastError (o_task (fst (iteration d i s))) = Some message \<and>
      (\<exists>added.
         entriesOf (o_memory (fst (iteration d i s))) (task_id (o_task s)) =
           entriesOf (o_memory s) (task_id (o_task s)) @ added @
             [\<lparr>entry_type = ObservationEntry, entry_content = ''Error: '' @ message,
               entry_metadata = None\<rparr>]) \<and>
      (\<forall>other. other \<noteq> task_id (o_task s) \<longrightarrow>
         o_memory (fst (iteration d i s)) other = o_memory s other) \<and>
      (\<exists>evs. o_events (fst (iteration d i s)) =
         o_events s @ evs @
           [TaskError (task_id (o_task s)) message, TaskFailed (task_id (o_task s)) message]))"
proof (intro conjI impI allI)
  assume "planner d i (planInput s) = Inl e"
  then show "failsWith d i s (fst (planStep d i s)) (errorMessage e)"
    by (rule planner_throws_fails)
next
  assume "planner d i (planInput s) = Inl e"
  then show "o_memory (fst (planStep d i s)) = o_memory s" by (rule planStep_throws_memory)
next
  assume a: "planner d i (planInput s) = plan jsonParse asPlanOutput True (Inr answer) \<and>
      \<not> truthy (parseJsonFromText jsonParse answer)"
  then have "planner d i (planInput s) =
      Inl (JsError ''Agent model returned an unparsable response. Expected JSON payload.'')"
    by (simp add: plan_unparsable)
  from planner_throws_fails[OF this]
  show "failsWith d i s (fst (planStep d i s))
      ''Agent model returned an unparsable response. Expected JSON payload.''"
    by (simp add: errorMessage_def)
next
  assume "planner d i (planInput s) = Inr p \<and> plan_finish p = None \<and> plan_action p = None"
  then show "failsWith d i s (planned d i s p)
      ''Agent returned neither an action nor a finish directive.''"
    using no_directive_fails by blast
next
  assume "planner d i (planInput s) = Inr p \<and> plan_finish p = None \<and> plan_action p = Some a \<and>
      validateAction a = Inr v \<and> \<not> ok v"
  then show "failsWith d i s (planned d i s p) (invalidActionMessage v)"
    using invalid_action_fails by blast
next
  assume "planner d i (planInput s) = Inr p \<and> plan_finish p = None \<and> plan_action p = Some a \<and>
      validateAction a = Inl e"
  then show "failsWith d i s (planned d i s p) (errorMessage e)"
    using validator_throws_fails by blast
next
  assume "planner d i (planInput s) = Inr p \<and> plan_finish p = None \<and> plan_action p = Some a \<and>
      validateAction a = Inr v \<and> ok v \<and>
      executor d i (executorPayload d i (planned d i s p) p a) = Inl e"
  then show "failsWith d i s (executing d i (planned d i s p) p a) (errorMessage e)"
    using executor_throws_fails by blast
next
  fix raised message
  let ?id = "task_id (o_task s)"
  let ?entry = "\<lparr>entry_type = ObservationEntry, entry_content = ''Error: '' @ message,
                 entry_metadata = None\<rparr>"
  assume "failsWith d i s raised message"
  then have returned: "snd (iteration d i s)"
    and task: "o_task (fst (iteration d i s)) =
                 (o_task raised)\<lparr>task_lastError := Some message, task_status := Failed\<rparr>"
    and memory: "o_memory (fst (iteration d i s)) =
                   (o_memory raised)(?id \<mapsto> entriesOf (o_memory raised) ?id @ [?entry])"
    and events: "o_events (fst (iteration d i s)) =
                   o_events raised @ [TaskError ?id message, TaskFailed ?id message]"
    and kept: "take (length (entriesOf (o_memory s) ?id)) (entriesOf (o_memory raised) ?id) =
                 entriesOf (o_memory s) ?id"
    and others: "\<forall>other. other \<noteq> ?id \<longrightarrow> o_memory raised other = o_memory s other"
    and before: "take (length (o_events s)) (o_events raised) = o_events s"
    unfolding failsWith_def case_prod_beta by blast+
  show "snd (iteration d i s)" by (rule returned)
  show "task_status (o_task (fst (iteration d i s))) = Failed" by (simp add: task)
  show "task_lastError (o_task (fst (iteration d i s))) = Some message" by (simp add: task)
  define added where
    "added = drop (length (entriesOf (o_memory s) ?id)) (entriesOf (o_memory raised) ?id)"
  define evs where "evs = drop (length (o_events s)) (o_events raised)"
  have "entriesOf (o_memory raised) ?id = entriesOf (o_memory s) ?id @ added"
    using append_take_drop_id[of "length (entriesOf (o_memory s) ?id)"
        "entriesOf (o_memory raised) ?id", unfolded kept]
    unfolding added_def by (rule sym)
  then have "entriesOf (o_memory (fst (iteration d i s))) ?id =
          entriesOf (o_memory s) ?id @ added @ [?entry]"
    unfolding memory by (simp add: entriesOf_def)
  then show "\<exists>added. entriesOf (o_memory (fst (iteration d i s))) ?id =
      entriesOf (o_memory s) ?id @ added @ [?entry]"
    by (rule exI[of _ added])
  show "o_memory (fst (iteration d i s)) other = o_memory s other" if "other \<noteq> ?id" for other
  proof -
    from others that have "o_memory raised other = o_memory s other" by blast
    with that show ?thesis unfolding memory by simp
  qed
  have "o_events raised = o_events s @ evs"
    using append_take_drop_id[of "length (o_events s)" "o_events raised", unfolded before]
    unfolding evs_def by (rule sym)
  then have "o_events (fst (iteration d i s)) =
      o_events s @ evs @ [TaskError ?id message, TaskFailed ?id message]"
    unfolding events by simp
  then show "\<exists>evs. o_events (fst (iteration d i s)) =
      o_events s @ evs @ [TaskError ?id message, TaskFailed ?id message]"
    by (rule exI[of _ evs])
qed

theorem loop_errors_take_one_path_witness:
  "failsWith (orchestrator (fixtureRuntime (textPlanner ''I cannot do that'') happyExecutor)) 0
     (runStart fixtureState)
     (fst (planStep
        (orchestrator (fixtureRuntime (textPlanner ''I cannot do that'') happyExecutor)) 0
        (runStart fixtureState)))
     ''Agent model returned an unparsable response. Expected JSON payload.'' \<and>
   failsWith
     (orchestrator (fixtureRuntime
        (\<lambda>i input. Inr \<lparr>plan_thought = ''hm'', plan_action = None, plan_finish = None,
                           plan_caution = None\<rparr>) happyExecutor)) 0
     (runStart fixtureState)
     (planned
        (orchestrator (fixtureRuntime
           (\<lambda>i input. Inr \<lparr>plan_thought = ''hm'', plan_action = None, plan_finish = None,
                              plan_caution = None\<rparr>) happyExecutor)) 0
        (runStart fixtureState)
        \<lparr>plan_thought = ''hm'', plan_action = None, plan_finish = None, plan_caution = None\<rparr>)
     ''Agent returned neither an action nor a finish directive.'' \<and>
   failsWith (orchestrator (fixtureRuntime invalidPlanner happyExecutor)) 0
     (runStart fixtureState)
     (planned (orchestrator (fixtureRuntime invalidPlanner happyExecutor)) 0
        (runStart fixtureState) (actionPlan ''click'' ''click'' []))
     (''Invalid action returned: '' @ missingIssue ''selector'' ''click'') \<and>
   failsWith
     (orchestrator (fixtureRuntime
        (\<lambda>i input. Inr (actionPlan ''build'' ''constructor'' [])) happyExecutor)) 0
     (runStart fixtureState)
     (planned
        (orchestrator (fixtureRuntime
           (\<lambda>i input. Inr (actionPlan ''build'' ''constructor'' [])) happyExecutor)) 0
        (runStart fixtureState) (actionPlan ''build'' ''constructor'' []))
     ''Cannot convert undefined or null to object'' \<and>
   failsWith (orchestrator (fixtureRuntime happyPlanner throwingExecutor)) 0
     (runStart fixtureState)
     (executing (orchestrator (fixtureRuntime happyPlanner throwingExecutor)) 0
        (planned (orchestrator (fixtureRuntime happyPlanner throwingExecutor)) 0
           (runStart fixtureState)
           (actionPlan ''I will open the site'' ''navigate''
              [(''url'', JString ''https://example.com'')]))
        (actionPlan ''I will open the site'' ''navigate''
           [(''url'', JString ''https://example.com'')])
        \<lparr>action_type = ''navigate'',
          action_params = [(''url'', JString ''https://example.com'')]\<rparr>)
     ''tab crashed'' \<and>
   task_status (o_task (fst (iteration
      (orchestrator (fixtureRuntime happyPlanner throwingExecutor)) 0
      (runStart fixtureState)))) = Failed \<and>
   task_lastError (o_task (fst (iteration
      (orchestrator (fixtureRuntime happyPlanner throwingExecutor)) 0
      (runStart fixtureState)))) = Some ''tab crashed''"
proof (intro conjI)
  let ?s = "runStart fixtureState"
  let ?unparsable = "''Agent model returned an unparsable response. Expected JSON payload.''"
  let ?d1 = "orchestrator (fixtureRuntime (textPlanner ''I cannot do that'') happyExecutor)"
  have "planner ?d1 0 (planInput ?s) =
          plan JSON_parse (\<lambda>v. finishPlan ''Done'' FinishSuccess ''parsed'') True
            (Inr ''I cannot do that'') \<and>
        \<not> truthy (parseJsonFromText JSON_parse ''I cannot do that'')"
    by code_simp
  with loop_errors_take_one_path[of ?d1 0 ?s _ JSON_parse
      "\<lambda>v. finishPlan ''Done'' FinishSuccess ''parsed''" "''I cannot do that''"]
  show "failsWith ?d1 0 ?s (fst (planStep ?d1 0 ?s)) ?unparsable" by blast
next
  let ?s = "runStart fixtureState"
  let ?p = "\<lparr>plan_thought = ''hm'', plan_action = None, plan_finish = None,
             plan_caution = None\<rparr>"
  let ?d2 = "orchestrator (fixtureRuntime (\<lambda>i input. Inr ?p) happyExecutor)"
  have "planner ?d2 0 (planInput ?s) = Inr ?p \<and> plan_finish ?p = None \<and> plan_action ?p = None"
    by (simp add: orchestrator_def fixtureRuntime_def)
  with loop_errors_take_one_path[of ?d2 0 ?s _ _ _ _ ?p]
  show "failsWith ?d2 0 ?s (planned ?d2 0 ?s ?p)
      ''Agent returned neither an action nor a finish directive.''"
    by blast
next
  let ?s = "runStart fixtureState"
  let ?a = "\<lparr>action_type = ''click'', action_params = []\<rparr>"
  let ?v = "\<lparr>ok = False, issues = Some [missingIssue ''selector'' ''click'']\<rparr>"
  let ?d3 = "orchestrator (fixtureRuntime invalidPlanner happyExecutor)"
  have v: "validateAction ?a = Inr ?v" by code_simp
  have "planner ?d3 0 (planInput ?s) = Inr (actionPlan ''click'' ''click'' []) \<and>
        plan_finish (actionPlan ''click'' ''click'' []) = None \<and>
        plan_action (actionPlan ''click'' ''click'' []) = Some ?a \<and>
        validateAction ?a = Inr ?v \<and> \<not> ok ?v"
    using v by (simp add: orchestrator_def fixtureRuntime_def invalidPlanner_def actionPlan_def)
  with loop_errors_take_one_path[of ?d3 0 ?s _ _ _ _ "actionPlan ''click'' ''click'' []" ?a ?v]
  have "failsWith ?d3 0 ?s (planned ?d3 0 ?s (actionPlan ''click'' ''click'' []))
      (invalidActionMessage ?v)" by blast
  then show "failsWith ?d3 0 ?s (planned ?d3 0 ?s (actionPlan ''click'' ''click'' []))
      (''Invalid action returned: '' @ missingIssue ''selector'' ''click'')"
    by (simp add: invalidActionMessage_def)
next
  let ?s = "runStart fixtureState"
  let ?a = "\<lparr>action_type = ''constructor'', action_params = []\<rparr>"
  let ?e = "JsError ''Cannot convert undefined or null to object''"
  let ?d4 = "orchestrator (fixtureRuntime
               (\<lambda>i input. Inr (actionPlan ''build'' ''constructor'' [])) happyExecutor)"
  have v: "validateAction ?a = Inl ?e" by code_simp
  have "planner ?d4 0 (planInput ?s) = Inr (actionPlan ''build'' ''constructor'' []) \<and>
        plan_finish (actionPlan ''build'' ''constructor'' []) = None \<and>
        plan_action (actionPlan ''build'' ''constructor'' []) = Some ?a \<and>
        validateAction ?a = Inl ?e"
    using v by (simp add: orchestrator_def fixtureRuntime_def actionPlan_def)
  with loop_errors_take_one_path[of ?d4 0 ?s ?e _ _ _ "actionPlan ''build'' ''constructor'' []" ?a]
  have "failsWith ?d4 0 ?s (planned ?d4 0 ?s (actionPlan ''build'' ''constructor'' []))
      (errorMessage ?e)" by blast
  then show "failsWith ?d4 0 ?s (planned ?d4 0 ?s (actionPlan ''build'' ''constructor'' []))
      ''Cannot convert undefined or null to object''"
    by (simp add: errorMessage_def)
next
  let ?s = "runStart fixtureState"
  let ?p = "actionPlan ''I will open the site'' ''navigate''
              [(''url'', JString ''https://example.com'')]"
  let ?a = "\<lparr>action_type = ''navigate'',
             action_params = [(''url'', JString ''https://example.com'')]\<rparr>"
  let ?v = "\<lparr>ok = True, issues = None\<rparr>"
  let ?e = "JsError ''tab crashed''"
  let ?d5 = "orchestrator (fixtureRuntime happyPlanner throwingExecutor)"
  have v: "validateAction ?a = Inr ?v" by code_simp
  have "planner ?d5 0 (planInput ?s) = Inr ?p \<and> plan_finish ?p = None \<and>
        plan_action ?p = Some ?a \<and> validateAction ?a = Inr ?v \<and> ok ?v \<and>
        executor ?d5 0 (executorPayload ?d5 0 (planned ?d5 0 ?s ?p) ?p ?a) = Inl ?e"
    using v
    by (simp add: orchestrator_def fixtureRuntime_def happyPlanner_def actionPlan_def
        throwingExecutor_def)
  note claim = loop_errors_take_one_path[of ?d5 0 ?s ?e _ _ _ ?p ?a ?v] this
  then have "failsWith ?d5 0 ?s (executing ?d5 0 (planned ?d5 0 ?s ?p) ?p ?a) (errorMessage ?e)"
    by blast
  then show fails:
    "failsWith ?d5 0 ?s (executing ?d5 0 (planned ?d5 0 ?s ?p) ?p ?a) ''tab crashed''"
    by (simp add: errorMessage_def)
  from claim(1) have path: "\<forall>raised message. failsWith ?d5 0 ?s raised message \<longrightarrow>
      task_status (o_task (fst (iteration ?d5 0 ?s))) = Failed \<and>
      task_lastError (o_task (fst (iteration ?d5 0 ?s))) = Some message"
    by blast
  from path fails show "task_status (o_task (fst (iteration ?d5 0 ?s))) = Failed" by blast
  from path fails show "task_lastError (o_task (fst (iteration ?d5 0 ?s))) = Some ''tab crashed''"
    by blast
qed

section \<open>Steps, validation and the step budget\<close>

lemma run_steps:
  "\<exists>new. task_steps (o_task (run d s)) = task_steps (o_task s) @ new \<and>
     length new \<le> maxSteps d \<and> list_all stepConsistent new \<and> list_all validatedStep new"
  using runLoop_steps[of d 0 "runStart s"] by (simp add: run_def)

lemma click_without_selector:
  "validateAction \<lparr>action_type = ''click'', action_params = []\<rparr> =
     Inr \<lparr>ok = False, issues = Some [missingIssue ''selector'' ''click'']\<rparr>"
  by code_simp

text \<open>
  A plan with a finish directive is completed from it before its action, if it has
  one, is looked at.
\<close>

lemma finish_comes_first:
  assumes "planner d i (planInput s) = Inr p" and "plan_finish p = Some f"
  shows "snd (iteration d i s)"
    and "o_task (fst (iteration d i s)) =
           (if finish_status f = FinishSuccess
            then (o_task s)\<lparr>task_status := Succeeded, task_summary := Some (finish_summary f)\<rparr>
            else (o_task s)\<lparr>task_status := Failed, task_lastError := Some (finish_summary f),
                              task_summary := Some (finish_summary f)\<rparr>)"
    and "o_events (fst (iteration d i s)) =
           o_events s @
             [PlanningStarted (task_id (o_task s))
                (length (getRecent (o_memory s) (task_id (o_task s)) 16)),
              PlanningFinished (task_id (o_task s)) (plan_thought p) (plan_action p)
                (plan_finish p),
              if finish_status f = FinishSuccess
              then TaskCompleted (task_id (o_task s)) (finish_summary f)
              else TaskFailed (task_id (o_task s)) (finish_summary f)]"
  using assms
  by (simp_all add: iteration_finish[OF assms] planned_events[OF assms(1)])

text \<open>
  C3, as stated, fails. The plan of \<open>finishingInvalidPlanner\<close> holds a click without
  its selector, which fails validation, and a finish directive with status
  \<open>success\<close>: the task ends \<open>succeeded\<close>, with no \<open>lastError\<close> and no
  \<open>task-failed\<close> event.
\<close>

theorem invalid_action_with_finish_succeeds:
  "(let d = orchestrator (fixtureRuntime finishingInvalidPlanner happyExecutor);
        s = runStart fixtureState;
        s' = fst (iteration d 0 s)
    in planner d 0 (planInput s) =
         Inr \<lparr>plan_thought = ''click'',
              plan_action = Some \<lparr>action_type = ''click'', action_params = []\<rparr>,
              plan_finish = Some \<lparr>finish_status = FinishSuccess, finish_summary = ''Clicked''\<rparr>,
              plan_caution = None\<rparr> \<and>
       validateAction \<lparr>action_type = ''click'', action_params = []\<rparr> =
         Inr \<lparr>ok = False, issues = Some [missingIssue ''selector'' ''click'']\<rparr> \<and>
       snd (iteration d 0 s) \<and>
       task_status (o_task s') = Succeeded \<and>
       task_lastError (o_task s') = None \<and>
       task_steps (o_task s') = [] \<and>
       map eventName (o_events s') =
         [''task-started'', ''planning-started'', ''planning-finished'', ''task-completed''])"
proof -
  let ?d = "orchestrator (fixtureRuntime finishingInvalidPlanner happyExecutor)"
  let ?s = "runStart fixtureState"
  let ?f = "\<lparr>finish_status = FinishSuccess, finish_summary = ''Clicked''\<rparr>"
  let ?p = "\<lparr>plan_thought = ''click'',
             plan_action = Some \<lparr>action_type = ''click'', action_params = []\<rparr>,
             plan_finish = Some ?f, plan_caution = None\<rparr>"
  have plan: "planner ?d 0 (planInput ?s) = Inr ?p"
    by (simp add: orchestrator_def fixtureRuntime_def finishingInvalidPlanner_def)
  have finish: "plan_finish ?p = Some ?f" by simp
  note ended = finish_comes_first[OF plan finish]
  have start: "task_lastError (o_task ?s) = None" "task_steps (o_task ?s) = []"
    "map eventName (o_events ?s) = [''task-started'']"
    by (simp_all add: fixtureState_def fixtureTask_def)
  show ?thesis
    unfolding Let_def
    using plan click_without_selector ended start by simp
qed

text \<open>
  C3, amended. Let the plan hold an action that fails validation: the validator
  returns \<open>ok = false\<close>, or throws. If the plan has no finish directive, the
  iteration ends the run with the task \<open>failed\<close>, \<open>lastError\<close> the message of the
  failure, no step appended, and exactly the events \<open>planning-started\<close>,
  \<open>planning-finished\<close>, \<open>task-error\<close>, \<open>task-failed\<close>; for a click with empty
  parameters the message is \<open>Invalid action returned: Missing required parameter
  "selector" for click.\<close> If the plan has a finish directive, the task is completed
  from it, \<open>succeeded\<close> or \<open>failed\<close> as the directive says, and the action is
  not validated. In both cases no step is appended and no \<open>step-created\<close> event is
  emitted; and every step of every task a runtime can reach was made from an action
  that passed validation.
\<close>

theorem invalid_action_creates_no_step:
  assumes "planner d i (planInput s) = Inr p"
    and "plan_action p = Some a"
    and "validateAction a = Inl e \<or> (validateAction a = Inr v \<and> \<not> ok v)"
  shows
    "(plan_finish p = None \<longrightarrow>
       (let s' = fst (iteration d i s);
            message = (case validateAction a of
                         Inl thrown \<Rightarrow> errorMessage thrown
                       | Inr result \<Rightarrow> invalidActionMessage result)
        in snd (iteration d i s) \<and>
           task_status (o_task s') = Failed \<and>
           task_lastError (o_task s') = Some message \<and>
           task_steps (o_task s') = task_steps (o_task s) \<and>
           o_events s' = o_events s @
             [PlanningStarted (task_id (o_task s))
                (length (getRecent (o_memory s) (task_id (o_task s)) 16)),
              PlanningFinished (task_id (o_task s)) (plan_thought p) (plan_action p)
                (plan_finish p),
              TaskError (task_id (o_task s)) message,
              TaskFailed (task_id (o_task s)) message] \<and>
           map eventName (drop (length (o_events s)) (o_events s')) =
             [''planning-started'', ''planning-finished'', ''task-error'', ''task-failed''] \<and>
           (a = \<lparr>action_type = ''click'', action_params = []\<rparr> \<longrightarrow>
              message = ''Invalid action returned: '' @ ''Missing required parameter '' @
                          dquote ''selector'' @ '' for click.''))) \<and>
     (\<forall>f. plan_finish p = Some f \<longrightarrow>
        snd (iteration d i s) \<and>
        o_task (fst (iteration d i s)) =
          (if finish_status f = FinishSuccess
           then (o_task s)\<lparr>task_status := Succeeded, task_summary := Some (finish_summary f)\<rparr>
           else (o_task s)\<lparr>task_status := Failed, task_lastError := Some (finish_summary f),
                             task_summary := Some (finish_summary f)\<rparr>) \<and>
        map eventName (drop (length (o_events s)) (o_events (fst (iteration d i s)))) =
          [''planning-started'', ''planning-finished'',
           if finish_status f = FinishSuccess then ''task-completed'' else ''task-failed'']) \<and>
     task_steps (o_task (fst (iteration d i s))) = task_steps (o_task s) \<and>
     ''step-created'' \<notin>
       set (map eventName (drop (length (o_events s)) (o_events (fst (iteration d i s))))) \<and>
     (\<forall>rt st j t. reachable rt st \<and> rt_tasks st j = Some t \<longrightarrow>
        list_all validatedStep (task_steps t))"
proof -
  let ?message = "case validateAction a of
                    Inl thrown \<Rightarrow> errorMessage thrown
                  | Inr result \<Rightarrow> invalidActionMessage result"
  let ?new = "drop (length (o_events s)) (o_events (fst (iteration d i s)))"
  have reach: "\<forall>rt st j t. reachable rt st \<and> rt_tasks st j = Some t \<longrightarrow>
          list_all validatedStep (task_steps t)"
    using reachable_invariant by (auto simp: tasksInvariant_def)
  have invalid: "let s' = fst (iteration d i s); message = ?message
      in snd (iteration d i s) \<and>
         task_status (o_task s') = Failed \<and>
         task_lastError (o_task s') = Some message \<and>
         task_steps (o_task s') = task_steps (o_task s) \<and>
         o_events s' = o_events s @
           [PlanningStarted (task_id (o_task s))
              (length (getRecent (o_memory s) (task_id (o_task s)) 16)),
            PlanningFinished (task_id (o_task s)) (plan_thought p) (plan_action p) (plan_finish p),
            TaskError (task_id (o_task s)) message,
            TaskFailed (task_id (o_task s)) message] \<and>
         map eventName (drop (length (o_events s)) (o_events s')) =
           [''planning-started'', ''planning-finished'', ''task-error'', ''task-failed''] \<and>
         (a = \<lparr>action_type = ''click'', action_params = []\<rparr> \<longrightarrow>
            message = ''Invalid action returned: '' @ ''Missing required parameter '' @
                        dquote ''selector'' @ '' for click.'')"
    if none: "plan_finish p = None"
  proof -
    have it: "iteration d i s = (catchBlock (planned d i s p) (JsError ?message), True)"
    proof (cases "validateAction a")
      case (Inl thrown)
      have "iteration d i s = (catchBlock (planned d i s p) thrown, True)"
        using assms(1) none assms(2) Inl by (rule iteration_validator_throws)
      moreover have "catchBlock (planned d i s p) thrown =
                     catchBlock (planned d i s p) (JsError (errorMessage thrown))"
        by (simp add: catchBlock_def errorMessage_def)
      ultimately show ?thesis using Inl by simp
    next
      case (Inr result)
      with assms(3) have "\<not> ok result" by auto
      with assms(1,2) none Inr show ?thesis by (simp add: iteration_invalid)
    qed
    have click: "a = \<lparr>action_type = ''click'', action_params = []\<rparr> \<longrightarrow>
        ?message = ''Invalid action returned: '' @ ''Missing required parameter '' @
                      dquote ''selector'' @ '' for click.''"
      by (auto simp: click_without_selector invalidActionMessage_def missingIssue_def)
    show ?thesis
      unfolding Let_def it fst_conv snd_conv
      using click by (simp add: planned_events[OF assms(1)] errorMessage_def)
  qed
  have finished: "snd (iteration d i s) \<and>
        o_task (fst (iteration d i s)) =
          (if finish_status f = FinishSuccess
           then (o_task s)\<lparr>task_status := Succeeded, task_summary := Some (finish_summary f)\<rparr>
           else (o_task s)\<lparr>task_status := Failed, task_lastError := Some (finish_summary f),
                             task_summary := Some (finish_summary f)\<rparr>) \<and>
        map eventName ?new =
          [''planning-started'', ''planning-finished'',
           if finish_status f = FinishSuccess then ''task-completed'' else ''task-failed'']"
    if some: "plan_finish p = Some f" for f
    using finish_comes_first[OF assms(1) some] by simp
  have steps: "task_steps (o_task (fst (iteration d i s))) = task_steps (o_task s)"
  proof (cases "plan_finish p")
    case None
    from invalid[OF None] show ?thesis by (simp add: Let_def)
  next
    case (Some f)
    from finished[OF Some] show ?thesis by simp
  qed
  have events: "''step-created'' \<notin> set (map eventName ?new)"
  proof (cases "plan_finish p")
    case None
    from invalid[OF None] have "map eventName ?new =
        [''planning-started'', ''planning-finished'', ''task-error'', ''task-failed'']"
      by (simp add: Let_def)
    then show ?thesis by simp
  next
    case (Some f)
    from finished[OF Some] have "map eventName ?new =
          [''planning-started'', ''planning-finished'',
           if finish_status f = FinishSuccess then ''task-completed'' else ''task-failed'']"
      by simp
    then show ?thesis by simp
  qed
  from invalid finished steps events reach show ?thesis by blast
qed

theorem invalid_action_creates_no_step_witness:
  "(let s' = fst (iteration (orchestrator (fixtureRuntime invalidPlanner happyExecutor)) 0
                    (runStart fixtureState))
    in task_status (o_task s') = Failed \<and>
       task_lastError (o_task s') =
         Some (''Invalid action returned: '' @ ''Missing required parameter '' @
                 dquote ''selector'' @ '' for click.'') \<and>
       task_steps (o_task s') = [] \<and>
       map eventName (o_events s') =
         [''task-started'', ''planning-started'', ''planning-finished'', ''task-error'',
          ''task-failed'']) \<and>
   (let s' = fst (iteration (orchestrator (fixtureRuntime finishingInvalidPlanner happyExecutor))
                    0 (runStart fixtureState))
    in task_status (o_task s') = Succeeded \<and> task_steps (o_task s') = [] \<and>
       map eventName (drop 1 (o_events s')) =
         [''planning-started'', ''planning-finished'', ''task-completed''])"
proof (rule conjI)
  let ?d = "orchestrator (fixtureRuntime invalidPlanner happyExecutor)"
  let ?s = "runStart fixtureState"
  let ?p = "actionPlan ''click'' ''click'' []"
  let ?a = "\<lparr>action_type = ''click'', action_params = []\<rparr>"
  let ?v = "\<lparr>ok = False, issues = Some [missingIssue ''selector'' ''click'']\<rparr>"
  have h1: "planner ?d 0 (planInput ?s) = Inr ?p"
    by (simp add: orchestrator_def fixtureRuntime_def invalidPlanner_def)
  have h2: "plan_finish ?p = None" and h3: "plan_action ?p = Some ?a"
    by (simp_all add: actionPlan_def)
  have h4: "validateAction ?a = Inl NonError \<or> (validateAction ?a = Inr ?v \<and> \<not> ok ?v)"
    by (simp add: click_without_selector)
  have start: "task_steps (o_task ?s) = []" "map eventName (o_events ?s) = [''task-started'']"
    by (simp_all add: fixtureState_def fixtureTask_def)
  from invalid_action_creates_no_step[OF h1 h3 h4, THEN conjunct1] h2 start
  show "let s' = fst (iteration ?d 0 ?s)
    in task_status (o_task s') = Failed \<and>
       task_lastError (o_task s') =
         Some (''Invalid action returned: '' @ ''Missing required parameter '' @
                 dquote ''selector'' @ '' for click.'') \<and>
       task_steps (o_task s') = [] \<and>
       map eventName (o_events s') =
         [''task-started'', ''planning-started'', ''planning-finished'', ''task-error'',
          ''task-failed'']"
    by (simp add: Let_def click_without_selector)
next
  let ?d = "orchestrator (fixtureRuntime finishingInvalidPlanner happyExecutor)"
  let ?s = "runStart fixtureState"
  let ?a = "\<lparr>action_type = ''click'', action_params = []\<rparr>"
  let ?v = "\<lparr>ok = False, issues = Some [missingIssue ''selector'' ''click'']\<rparr>"
  let ?f = "\<lparr>finish_status = FinishSuccess, finish_summary = ''Clicked''\<rparr>"
  let ?p = "\<lparr>plan_thought = ''click'', plan_action = Some ?a, plan_finish = Some ?f,
             plan_caution = None\<rparr>"
  have h1: "planner ?d 0 (planInput ?s) = Inr ?p"
    by (simp add: orchestrator_def fixtureRuntime_def finishingInvalidPlanner_def)
  have h3: "plan_action ?p = Some ?a" and h2: "plan_finish ?p = Some ?f" by simp_all
  have h4: "validateAction ?a = Inl NonError \<or> (validateAction ?a = Inr ?v \<and> \<not> ok ?v)"
    by (simp add: click_without_selector)
  have start: "task_steps (o_task ?s) = []" "length (o_events ?s) = 1"
    by (simp_all add: fixtureState_def fixtureTask_def)
  note claim = invalid_action_creates_no_step[OF h1 h3 h4]
  from claim h2 have "o_task (fst (iteration ?d 0 ?s)) =
      (o_task ?s)\<lparr>task_status := Succeeded, task_summary := Some ''Clicked''\<rparr>"
    and "map eventName (drop (length (o_events ?s)) (o_events (fst (iteration ?d 0 ?s)))) =
      [''planning-started'', ''planning-finished'', ''task-completed'']"
    by simp_all
  moreover from claim have "task_steps (o_task (fst (iteration ?d 0 ?s))) = task_steps (o_task ?s)"
    by blast
  ultimately show "let s' = fst (iteration ?d 0 ?s)
    in task_status (o_task s') = Succeeded \<and> task_steps (o_task s') = [] \<and>
       map eventName (drop 1 (o_events s')) =
         [''planning-started'', ''planning-finished'', ''task-completed'']"
    using start by (simp add: Let_def)
qed

text \<open>
  C4. No task a runtime can reach has more than \<open>maxSteps\<close> steps; one run adds at
  most \<open>maxSteps\<close> steps to a task, and after \<open>n\<close> iterations at most \<open>n\<close>. When
  all \<open>maxSteps\<close> iterations complete without \<open>run\<close> returning (no finish, no
  terminal observation, no error), the task ends \<open>failed\<close> and its summary is the
  goal line, the result line and \<open>Max step count reached without completion.\<close>
\<close>

theorem step_budget_bounds_steps:
  "(reachable rt st \<and> rt_tasks st j = Some t \<longrightarrow>
      length (task_steps t) \<le> maxSteps (orchestrator rt)) \<and>
   length (task_steps (o_task (run d s))) \<le> length (task_steps (o_task s)) + maxSteps d \<and>
   length (task_steps (o_task (fst (iterations d 0 n (runStart s))))) \<le>
      length (task_steps (o_task s)) + n \<and>
   (\<not> snd (iterations d 0 (maxSteps d) (runStart s)) \<longrightarrow>
      task_status (o_task (run d s)) = Failed \<and>
      task_summary (o_task (run d s)) =
        Some (''Goal: '' @ task_goal (o_task s) @ [CHR 0x0A] @ ''Result: ERROR'' @ [CHR 0x0A] @
              ''Max step count reached without completion.''))"
proof (intro conjI impI)
  assume "reachable rt st \<and> rt_tasks st j = Some t"
  then show "length (task_steps t) \<le> maxSteps (orchestrator rt)"
    using reachable_invariant[of rt st] by (auto simp: tasksInvariant_def)
next
  show "length (task_steps (o_task (run d s))) \<le> length (task_steps (o_task s)) + maxSteps d"
    using run_steps[of d s] by auto
next
  show "length (task_steps (o_task (fst (iterations d 0 n (runStart s))))) \<le>
          length (task_steps (o_task s)) + n"
    using iterations_steps[of d 0 n "runStart s"] by auto
next
  assume "\<not> snd (iterations d 0 (maxSteps d) (runStart s))"
  then have "run d s = budgetExhausted d (fst (iterations d 0 (maxSteps d) (runStart s)))"
    by (simp add: run_def runLoop_iterations)
  then show "task_status (o_task (run d s)) = Failed"
    and "task_summary (o_task (run d s)) =
        Some (''Goal: '' @ task_goal (o_task s) @ [CHR 0x0A] @ ''Result: ERROR'' @ [CHR 0x0A] @
              ''Max step count reached without completion.'')"
    by (simp_all add: iterations_goal maxStepMessage_def)
qed

lemma stepConsistent_observed:
  "stepConsistent step \<Longrightarrow> step_status step \<in> {StepSucceeded, StepFailed} \<Longrightarrow>
   step_observation step \<noteq> None"
  by (auto simp: stepConsistent_def split: option.splits)

text \<open>
  C8. A step is created \<open>running\<close>, without an observation. Finalising a step of the
  task writes, at the step's index, the status \<open>succeeded\<close> exactly when the
  observation's result is \<open>success\<close> and \<open>failed\<close> otherwise, together with that
  observation. Hence the steps stay consistent with their observations through the
  call of the executor, any number of iterations and the whole run, and in every task
  a runtime can reach a step that is \<open>succeeded\<close> or \<open>failed\<close> has its observation.
\<close>

theorem finished_steps_have_observations:
  "step_status (fst (createStep d i s p)) = StepRunning \<and>
   step_observation (fst (createStep d i s p)) = None \<and>
   (step_index step < length (task_steps (o_task s)) \<longrightarrow>
      task_steps (o_task (finaliseStep s step ob)) ! step_index step =
        step\<lparr>step_status := (if obs_result ob = Success then StepSucceeded else StepFailed),
             step_observation := Some ob\<rparr>) \<and>
   (list_all stepConsistent (task_steps (o_task s)) \<longrightarrow>
      list_all stepConsistent (task_steps (o_task (executing d i s p a))) \<and>
      list_all stepConsistent (task_steps (o_task (fst (iterations d i n s)))) \<and>
      list_all stepConsistent (task_steps (o_task (run d s)))) \<and>
   (reachable rt st \<and> rt_tasks st j = Some t \<and> finished \<in> set (task_steps t) \<and>
      step_status finished \<in> {StepSucceeded, StepFailed} \<longrightarrow>
      step_observation finished \<noteq> None)"
proof (intro conjI impI)
  show "step_status (fst (createStep d i s p)) = StepRunning"
    and "step_observation (fst (createStep d i s p)) = None"
    by simp_all
next
  assume "step_index step < length (task_steps (o_task s))"
  then show "task_steps (o_task (finaliseStep s step ob)) ! step_index step =
        step\<lparr>step_status := (if obs_result ob = Success then StepSucceeded else StepFailed),
             step_observation := Some ob\<rparr>"
    by simp
next
  assume ok: "list_all stepConsistent (task_steps (o_task s))"
  show "list_all stepConsistent (task_steps (o_task (executing d i s p a)))"
    using ok by (simp add: stepConsistent_def)
  show "list_all stepConsistent (task_steps (o_task (fst (iterations d i n s))))"
    using ok iterations_steps[of d i n s] by auto
  show "list_all stepConsistent (task_steps (o_task (run d s)))"
    using ok run_steps[of d s] by auto
next
  assume a: "reachable rt st \<and> rt_tasks st j = Some t \<and> finished \<in> set (task_steps t) \<and>
      step_status finished \<in> {StepSucceeded, StepFailed}"
  then have "list_all stepConsistent (task_steps t)"
    using reachable_invariant[of rt st] by (auto simp: tasksInvariant_def)
  with a have "stepConsistent finished" by (auto simp: list_all_iff)
  with a show "step_observation finished \<noteq> None" using stepConsistent_observed by blast
qed

section \<open>Scenarios\<close>

lemma orchestrator_simps [simp]:
  "planner (orchestrator rt) = rt_planner rt"
  "executor (orchestrator rt) = rt_executor rt"
  "stringify (orchestrator rt) = rt_stringify rt"
  "randomUUID (orchestrator rt) = rt_randomUUID rt"
  by (simp_all add: orchestrator_def)

text \<open>The first task of a runtime with room starts at once.\<close>

lemma createTask_first:
  assumes "rt_modelReady rt" and "0 < parallelLimit rt" and "0 < length (trim goal)"
  shows "createTask rt goal ctx uuid initialState =
    Inr \<lparr>rt_tasks = [uuid \<mapsto>
             \<lparr>task_id = uuid, task_goal = goal, task_status = Running, task_steps = [],
              task_summary = None, task_context = ctx, task_lastError = None\<rparr>],
          rt_queue = [], rt_activeTaskIds = [uuid], rt_memory = Map.empty,
          rt_events =
            [TaskCreated \<lparr>task_id = uuid, task_goal = goal, task_status = Pending,
                           task_steps = [], task_summary = None, task_context = ctx,
                           task_lastError = None\<rparr>,
             TaskStarted uuid]\<rparr>"
proof -
  let ?task = "\<lparr>task_id = uuid, task_goal = goal, task_status = Pending, task_steps = [],
                task_summary = None, task_context = ctx, task_lastError = None\<rparr>"
  let ?queued = "\<lparr>rt_tasks = [uuid \<mapsto> ?task], rt_queue = [uuid], rt_activeTaskIds = [],
                  rt_memory = Map.empty, rt_events = [TaskCreated ?task]\<rparr>"
  let ?started = "\<lparr>rt_tasks = [uuid \<mapsto> ?task\<lparr>task_status := Running\<rparr>], rt_queue = [],
                   rt_activeTaskIds = [uuid], rt_memory = Map.empty,
                   rt_events = [TaskCreated ?task, TaskStarted uuid]\<rparr>"
  from assms(3) have goal: "goal \<noteq> []" by (auto simp: trim_def)
  have "createTask rt goal ctx uuid initialState = Inr (drainQueue (parallelLimit rt) ?queued)"
    using assms goal by (simp add: createTask_def enqueue_def initialState_def Let_def)
  also have "drainQueue (parallelLimit rt) ?queued = drainQueue (parallelLimit rt) ?started"
    using assms(2)
    by (subst drainQueue_start[of _ _ uuid "[]"]) (simp_all add: setAdd_def onTask_def)
  also have "\<dots> = ?started" by (rule drainQueue_stop) simp
  finally show ?thesis by simp
qed

text \<open>The start of the first task, and the state after its run has returned.\<close>

lemma first_task_run:
  fixes goal :: string and ctx :: "AgentTaskContext option" and uuid :: string
  assumes "rt_modelReady rt" and "0 < parallelLimit rt" and "0 < length (trim goal)"
  defines "task \<equiv> \<lparr>task_id = uuid, task_goal = goal, task_status = Running, task_steps = [],
                       task_summary = None, task_context = ctx, task_lastError = None\<rparr>"
  defines "s0 \<equiv> \<lparr>o_task = task, o_memory = Map.empty,
                     o_events = [TaskCreated (task\<lparr>task_status := Pending\<rparr>), TaskStarted uuid]\<rparr>"
  shows "runCalls rt [CreateTask goal ctx uuid, RunReturns uuid] initialState =
    \<lparr>rt_tasks = [uuid \<mapsto> o_task (runLoop (orchestrator rt) 0 s0)], rt_queue = [],
     rt_activeTaskIds = [uuid], rt_memory = o_memory (runLoop (orchestrator rt) 0 s0),
     rt_events = o_events (runLoop (orchestrator rt) 0 s0)\<rparr>"
proof -
  let ?d = "orchestrator rt"
  let ?created = "TaskCreated (task\<lparr>task_status := Pending\<rparr>)"
  let ?st1 = "\<lparr>rt_tasks = [uuid \<mapsto> task], rt_queue = [], rt_activeTaskIds = [uuid],
               rt_memory = Map.empty, rt_events = [?created, TaskStarted uuid]\<rparr>"
  have create: "runtimeStep rt (CreateTask goal ctx uuid) initialState = ?st1"
    using createTask_first[OF assms(1-3), of ctx uuid]
    by (simp add: initialState_def task_def)
  have returns: "runtimeStep rt (RunReturns uuid) ?st1 = onTask (runLoop ?d 0) uuid ?st1"
    by (simp add: statusOf_def task_def)
  have stored: "rt_tasks ?st1 uuid = Some task" "rt_memory ?st1 = Map.empty"
      "rt_events ?st1 = [?created, TaskStarted uuid]"
    by simp_all
  have "runCalls rt [CreateTask goal ctx uuid, RunReturns uuid] initialState =
      runtimeStep rt (RunReturns uuid) (runtimeStep rt (CreateTask goal ctx uuid) initialState)"
    by (simp del: runtimeStep.simps)
  also have "\<dots> = runtimeStep rt (RunReturns uuid) ?st1" by (simp only: create)
  also have "\<dots> = onTask (runLoop ?d 0) uuid ?st1" by (rule returns)
  also have "\<dots> = ?st1\<lparr>rt_tasks := (rt_tasks ?st1)(uuid \<mapsto> o_task (runLoop ?d 0 s0)),
                         rt_memory := o_memory (runLoop ?d 0 s0),
                         rt_events := o_events (runLoop ?d 0 s0)\<rparr>"
    unfolding onTask_stored[OF stored(1)] stored(2,3) s0_def ..
  finally show ?thesis by simp
qed

text \<open>A run of two iterations: an action that succeeds, then a successful finish.\<close>

lemma happy_loop:
  assumes budget: "2 \<le> maxSteps d"
    and plan1: "\<And>input. planner d 0 input = Inr p1" "plan_finish p1 = None"
      "plan_action p1 = Some a" "validateAction a = Inr v" "ok v"
    and exec1: "\<And>payload. executor d 0 payload = Inr ex"
      "obs_result (exec_observation ex) = Success" "exec_didTerminate ex \<noteq> Some True"
    and plan2: "\<And>input. planner d 1 input = Inr p2"
      "plan_finish p2 = Some \<lparr>finish_status = FinishSuccess, finish_summary = summary\<rparr>"
  shows "map eventName (o_events (runLoop d 0 s)) =
           map eventName (o_events s) @
             [''planning-started'', ''planning-finished'', ''step-created'',
              ''step-executing'', ''step-updated'', ''planning-started'',
              ''planning-finished'', ''task-completed'']"
    and "task_status (o_task (runLoop d 0 s)) = Succeeded"
    and "task_summary (o_task (runLoop d 0 s)) = Some summary"
    and "\<exists>finished. task_steps (o_task (runLoop d 0 s)) = task_steps (o_task s) @ [finished] \<and>
           step_status finished = StepSucceeded \<and>
           step_observation finished = Some (exec_observation ex)"
proof -
  obtain s1 where it1: "iteration d 0 s = (s1, False)"
    and s1: "s1 = finaliseStep (executing d 0 (planned d 0 s p1) p1 a)
                    (newStep d 0 (planned d 0 s p1) p1) (exec_observation ex)"
    using iteration_continues[of d 0 s p1 a v ex] plan1 exec1 by simp
  have plan2': "planner d (Suc 0) (planInput s1) = Inr p2" using plan2(1) by simp
  have it2: "iteration d (Suc 0) s1 =
      (completeFromFinish (planned d (Suc 0) s1 p2) summary
         \<lparr>finish_status = FinishSuccess, finish_summary = summary\<rparr>, True)"
    using iteration_finish[OF plan2' plan2(2)] by simp
  let ?s2 = "completeFromFinish (planned d (Suc 0) s1 p2) summary
               \<lparr>finish_status = FinishSuccess, finish_summary = summary\<rparr>"
  have loop: "runLoop d 0 s = ?s2"
    using budget it1 it2
    by (subst runLoop_unfold, simp, subst runLoop_unfold, simp)
  have ev1: "map eventName (o_events s1) =
      map eventName (o_events s) @
        [''planning-started'', ''planning-finished'', ''step-created'', ''step-executing'',
         ''step-updated'']"
    unfolding s1 by (simp add: planned_events plan1(1))
  have t1: "task_steps (o_task s1) =
      task_steps (o_task s) @
        [(newStep d 0 (planned d 0 s p1) p1)\<lparr>step_status := StepSucceeded,
            step_observation := Some (exec_observation ex)\<rparr>]"
    unfolding s1 using exec1(2) by simp
  show "map eventName (o_events (runLoop d 0 s)) =
           map eventName (o_events s) @
             [''planning-started'', ''planning-finished'', ''step-created'',
              ''step-executing'', ''step-updated'', ''planning-started'',
              ''planning-finished'', ''task-completed'']"
    unfolding loop using ev1 by (simp add: planned_events[OF plan2'])
  show "task_status (o_task (runLoop d 0 s)) = Succeeded"
    and "task_summary (o_task (runLoop d 0 s)) = Some summary"
    unfolding loop by simp_all
  show "\<exists>finished. task_steps (o_task (runLoop d 0 s)) = task_steps (o_task s) @ [finished] \<and>
           step_status finished = StepSucceeded \<and>
           step_observation finished = Some (exec_observation ex)"
    unfolding loop using t1 by simp
qed

text \<open>The stubs of scenario 1 are such a run.\<close>

lemma happy_fixture:
  defines "rt \<equiv> fixtureRuntime happyPlanner happyExecutor"
  shows "rt_modelReady rt" and "0 < parallelLimit rt" and "2 \<le> maxSteps (orchestrator rt)"
    and "0 < length (trim ''Open example.com'')"
    and "\<And>input. rt_planner rt 0 input =
           Inr (actionPlan ''I will open the site'' ''navigate''
                  [(''url'', JString ''https://example.com'')])"
    and "validateAction \<lparr>action_type = ''navigate'',
           action_params = [(''url'', JString ''https://example.com'')]\<rparr> =
           Inr \<lparr>ok = True, issues = None\<rparr>"
    and "\<And>payload. rt_executor rt 0 payload =
           Inr (observed Success ''Navigated to https://example.com''
                  (Some [(''url'', JString ''https://example.com'')]))"
    and "\<And>input. rt_planner rt 1 input =
           Inr (finishPlan ''Done'' FinishSuccess ''Opened example.com'')"
proof -
  show "rt_modelReady rt" and "0 < parallelLimit rt" and "2 \<le> maxSteps (orchestrator rt)"
    by (simp_all add: rt_def fixtureRuntime_def parallelLimit_def orchestrator_def
        mergeConfig_def fixtureSafety_def)
  show "0 < length (trim ''Open example.com'')" by code_simp
  show "validateAction \<lparr>action_type = ''navigate'',
           action_params = [(''url'', JString ''https://example.com'')]\<rparr> =
           Inr \<lparr>ok = True, issues = None\<rparr>"
    by code_simp
  show "\<And>input. rt_planner rt 0 input =
           Inr (actionPlan ''I will open the site'' ''navigate''
                  [(''url'', JString ''https://example.com'')])"
    and "\<And>input. rt_planner rt 1 input =
           Inr (finishPlan ''Done'' FinishSuccess ''Opened example.com'')"
    and "\<And>payload. rt_executor rt 0 payload =
           Inr (observed Success ''Navigated to https://example.com''
                  (Some [(''url'', JString ''https://example.com'')]))"
    by (simp_all add: rt_def fixtureRuntime_def happyPlanner_def happyExecutor_def)
qed

text \<open>
  C9. One valid action whose execution succeeds without terminating, then a finish
  with status \<open>success\<close>: the task ends \<open>succeeded\<close> with the finish summary as its
  summary and one step, \<open>succeeded\<close>; the events from the creation of the task to the
  return of its run are, in order, the ten of the scenario.
\<close>

theorem single_step_happy_path:
  assumes "rt_modelReady rt" and "0 < parallelLimit rt" and "0 < length (trim goal)"
    and budget: "2 \<le> maxSteps (orchestrator rt)"
    and plan1: "\<And>input. rt_planner rt 0 input = Inr p1" "plan_finish p1 = None"
      "plan_action p1 = Some a" "validateAction a = Inr v" "ok v"
    and exec1: "\<And>payload. rt_executor rt 0 payload = Inr ex"
      "obs_result (exec_observation ex) = Success" "exec_didTerminate ex \<noteq> Some True"
    and plan2: "\<And>input. rt_planner rt 1 input = Inr p2"
      "plan_finish p2 = Some \<lparr>finish_status = FinishSuccess, finish_summary = summary\<rparr>"
  shows
    "(let st = runCalls rt [CreateTask goal ctx uuid, RunReturns uuid] initialState
      in map eventName (rt_events st) =
           [''task-created'', ''task-started'', ''planning-started'', ''planning-finished'',
            ''step-created'', ''step-executing'', ''step-updated'', ''planning-started'',
            ''planning-finished'', ''task-completed''] \<and>
         map_option task_status (rt_tasks st uuid) = Some Succeeded \<and>
         map_option task_summary (rt_tasks st uuid) = Some (Some summary) \<and>
         map_option (\<lambda>t. map step_status (task_steps t)) (rt_tasks st uuid) =
           Some [StepSucceeded])"
proof -
  let ?d = "orchestrator rt"
  let ?task = "\<lparr>task_id = uuid, task_goal = goal, task_status = Running, task_steps = [],
                task_summary = None, task_context = ctx, task_lastError = None\<rparr>"
  let ?s0 = "\<lparr>o_task = ?task, o_memory = Map.empty,
              o_events = [TaskCreated (?task\<lparr>task_status := Pending\<rparr>), TaskStarted uuid]\<rparr>"
  have p1: "\<And>input. planner ?d 0 input = Inr p1" using plan1(1) by simp
  have e1: "\<And>payload. executor ?d 0 payload = Inr ex" using exec1(1) by simp
  have p2: "\<And>input. planner ?d 1 input = Inr p2" using plan2(1) by simp
  note loop = happy_loop[OF budget p1 plan1(2-5) e1 exec1(2,3) p2 plan2(2), of ?s0]
  from loop(4) obtain finished where
    "task_steps (o_task (runLoop ?d 0 ?s0)) = [finished]" "step_status finished = StepSucceeded"
    by auto
  then show ?thesis
    unfolding first_task_run[OF assms(1-3)] Let_def using loop(1-3) by simp
qed

theorem single_step_happy_path_witness:
  "(let st = runCalls (fixtureRuntime happyPlanner happyExecutor)
               [CreateTask ''Open example.com'' None ''task-1'', RunReturns ''task-1'']
               initialState
    in map eventName (rt_events st) =
         [''task-created'', ''task-started'', ''planning-started'', ''planning-finished'',
          ''step-created'', ''step-executing'', ''step-updated'', ''planning-started'',
          ''planning-finished'', ''task-completed''] \<and>
       map_option task_status (rt_tasks st ''task-1'') = Some Succeeded \<and>
       map_option task_summary (rt_tasks st ''task-1'') = Some (Some ''Opened example.com'') \<and>
       map_option (\<lambda>t. map step_status (task_steps t)) (rt_tasks st ''task-1'') =
         Some [StepSucceeded])"
  by (rule single_step_happy_path[OF happy_fixture(1,2,4,3,5) _ _ happy_fixture(6) _
        happy_fixture(7) _ _ happy_fixture(8)])
     (simp_all add: actionPlan_def finishPlan_def observed_def)

text \<open>Scenario 4: the planner that scrolls for ever uses up the budget.\<close>

lemma scroll_iteration:
  "snd (iteration (orchestrator (fixtureRuntime scrollPlanner scrollExecutor)) i s) = False \<and>
   length (task_steps (o_task (fst (iteration
      (orchestrator (fixtureRuntime scrollPlanner scrollExecutor)) i s)))) =
     Suc (length (task_steps (o_task s)))"
proof -
  let ?d = "orchestrator (fixtureRuntime scrollPlanner scrollExecutor)"
  let ?a = "\<lparr>action_type = ''scroll'', action_params = [(''direction'', JString ''down'')]\<rparr>"
  let ?p = "actionPlan ''scroll on'' ''scroll'' [(''direction'', JString ''down'')]"
  let ?ex = "observed Success ''Scrolled down.'' None"
  have valid: "validateAction ?a = Inr \<lparr>ok = True, issues = None\<rparr>" by code_simp
  have "iteration ?d i s =
      (finaliseStep (executing ?d i (planned ?d i s ?p) ?p ?a)
         (newStep ?d i (planned ?d i s ?p) ?p) (exec_observation ?ex), False)"
    by (rule iteration_continues[where v = "\<lparr>ok = True, issues = None\<rparr>"])
       (simp_all add: fixtureRuntime_def scrollPlanner_def scrollExecutor_def actionPlan_def
          observed_def valid)
  then show ?thesis by simp
qed

lemma scroll_iterations:
  "snd (iterations (orchestrator (fixtureRuntime scrollPlanner scrollExecutor)) i n s) = False \<and>
   length (task_steps (o_task (fst (iterations
      (orchestrator (fixtureRuntime scrollPlanner scrollExecutor)) i n s)))) =
     length (task_steps (o_task s)) + n"
proof (induction n arbitrary: i s)
  case 0
  show ?case by simp
next
  case (Suc n)
  let ?d = "orchestrator (fixtureRuntime scrollPlanner scrollExecutor)"
  from scroll_iteration[of i s] Suc.IH[of "Suc i" "fst (iteration ?d i s)"]
  show ?case by (simp only: iterations_unfold if_False) simp
qed

theorem step_budget_bounds_steps_witness:
  "(let rt = fixtureRuntime scrollPlanner scrollExecutor;
        st = runCalls rt [CreateTask ''Scroll for ever'' None ''task-4'', RunReturns ''task-4'']
               initialState
    in maxSteps (orchestrator rt) = 3 \<and>
       (\<exists>t. rt_tasks st ''task-4'' = Some t \<and> length (task_steps t) \<le> 3)) \<and>
   length (task_steps (o_task (run (orchestrator (fixtureRuntime scrollPlanner scrollExecutor))
      fixtureState))) = 3 \<and>
   task_status (o_task (run (orchestrator (fixtureRuntime scrollPlanner scrollExecutor))
      fixtureState)) = Failed \<and>
   task_summary (o_task (run (orchestrator (fixtureRuntime scrollPlanner scrollExecutor))
      fixtureState)) =
     Some (''Goal: Open example.com'' @ [CHR 0x0A] @ ''Result: ERROR'' @ [CHR 0x0A] @
           ''Max step count reached without completion.'')"
proof -
  let ?rt = "fixtureRuntime scrollPlanner scrollExecutor"
  let ?calls = "[CreateTask ''Scroll for ever'' None ''task-4'', RunReturns ''task-4'']"
  let ?st = "runCalls ?rt ?calls initialState"
  let ?d = "orchestrator ?rt"
  have ready: "rt_modelReady ?rt" "0 < parallelLimit ?rt"
    by (simp_all add: fixtureRuntime_def parallelLimit_def mergeConfig_def fixtureSafety_def)
  have goal: "0 < length (trim ''Scroll for ever'')" by code_simp
  have bound: "maxSteps ?d = 3"
    by (simp add: fixtureRuntime_def orchestrator_def mergeConfig_def fixtureSafety_def)
  obtain t where t: "rt_tasks ?st ''task-4'' = Some t"
    unfolding first_task_run[OF ready goal] by simp
  have reach: "reachable ?rt ?st"
    by (rule reachable_runCalls) (rule reachable_initial)
  have open_end: "\<not> snd (iterations ?d 0 (maxSteps ?d) (runStart fixtureState))"
    using scroll_iterations[of 0 "maxSteps ?d" "runStart fixtureState"] by simp
  note W = step_budget_bounds_steps[of ?rt ?st "''task-4''" t ?d fixtureState 3]
  from W reach t have "length (task_steps t) \<le> maxSteps ?d" by blast
  then have stored: "\<exists>t. rt_tasks ?st ''task-4'' = Some t \<and> length (task_steps t) \<le> 3"
    using t bound by auto
  from W open_end have failed:
    "task_status (o_task (run ?d fixtureState)) = Failed \<and>
     task_summary (o_task (run ?d fixtureState)) =
       Some (''Goal: '' @ task_goal (o_task fixtureState) @ [CHR 0x0A] @ ''Result: ERROR'' @
             [CHR 0x0A] @ ''Max step count reached without completion.'')"
    by blast
  have goal_line: "task_goal (o_task fixtureState) = ''Open example.com''"
    by (simp add: fixtureState_def fixtureTask_def)
  have "run ?d fixtureState =
      budgetExhausted ?d (fst (iterations ?d 0 (maxSteps ?d) (runStart fixtureState)))"
    using open_end by (simp add: run_def runLoop_iterations)
  then have three: "length (task_steps (o_task (run ?d fixtureState))) = 3"
    using scroll_iterations[of 0 "maxSteps ?d" "runStart fixtureState"] bound
    by (simp add: fixtureState_def fixtureTask_def)
  show ?thesis unfolding Let_def using stored failed three bound goal_line by simp
qed

theorem finished_steps_have_observations_witness:
  "(let step = \<lparr>step_id = ''step-uuid'', step_index = 0, step_status = StepRunning,
                 step_action = None, step_observation = None, step_modelThought = None\<rparr>;
        ob = \<lparr>obs_result = Error, obs_message = ''Selector not found.'', obs_data = None\<rparr>;
        s = fixtureState\<lparr>o_task := fixtureTask\<lparr>task_steps := [step]\<rparr>\<rparr>
    in task_steps (o_task (finaliseStep s step ob)) ! 0 =
         step\<lparr>step_status := StepFailed, step_observation := Some ob\<rparr>) \<and>
   list_all stepConsistent
     (task_steps (o_task (run (orchestrator (fixtureRuntime happyPlanner happyExecutor))
        fixtureState))) \<and>
   (let st = runCalls (fixtureRuntime happyPlanner happyExecutor)
               [CreateTask ''Open example.com'' None ''task-1'', RunReturns ''task-1'']
               initialState
    in \<exists>t finished. rt_tasks st ''task-1'' = Some t \<and> task_steps t = [finished] \<and>
         step_status finished = StepSucceeded \<and> step_observation finished \<noteq> None)"
proof -
  let ?step = "\<lparr>step_id = ''step-uuid'', step_index = 0, step_status = StepRunning,
                step_action = None, step_observation = None, step_modelThought = None\<rparr>"
  let ?ob = "\<lparr>obs_result = Error, obs_message = ''Selector not found.'', obs_data = None\<rparr>"
  let ?s = "fixtureState\<lparr>o_task := fixtureTask\<lparr>task_steps := [?step]\<rparr>\<rparr>"
  let ?rt = "fixtureRuntime happyPlanner happyExecutor"
  let ?st = "runCalls ?rt [CreateTask ''Open example.com'' None ''task-1'', RunReturns ''task-1'']
               initialState"
  have index: "step_index ?step < length (task_steps (o_task ?s))" by simp
  have fresh: "list_all stepConsistent (task_steps (o_task fixtureState))"
    by (simp add: fixtureState_def fixtureTask_def)
  have reach: "reachable ?rt ?st"
    by (rule reachable_runCalls) (rule reachable_initial)
  let ?task = "\<lparr>task_id = ''task-1'', task_goal = ''Open example.com'', task_status = Running,
                task_steps = [], task_summary = None, task_context = None,
                task_lastError = None\<rparr>"
  let ?begun = "\<lparr>o_task = ?task, o_memory = Map.empty,
              o_events = [TaskCreated (?task\<lparr>task_status := Pending\<rparr>),
                          TaskStarted ''task-1'']\<rparr>"
  have p1: "\<And>input. planner (orchestrator ?rt) 0 input =
      Inr (actionPlan ''I will open the site'' ''navigate''
             [(''url'', JString ''https://example.com'')])"
    and e1: "\<And>payload. executor (orchestrator ?rt) 0 payload =
      Inr (observed Success ''Navigated to https://example.com''
             (Some [(''url'', JString ''https://example.com'')]))"
    and p2: "\<And>input. planner (orchestrator ?rt) 1 input =
      Inr (finishPlan ''Done'' FinishSuccess ''Opened example.com'')"
    using happy_fixture(5,7,8) by simp_all
  have "\<exists>finished. task_steps (o_task (runLoop (orchestrator ?rt) 0 ?begun)) =
          task_steps (o_task ?begun) @ [finished] \<and> step_status finished = StepSucceeded \<and>
          step_observation finished =
            Some (exec_observation (observed Success ''Navigated to https://example.com''
                    (Some [(''url'', JString ''https://example.com'')])))"
    by (rule happy_loop(4)[OF happy_fixture(3) p1 _ _ happy_fixture(6) _ e1 _ _ p2])
       (simp_all add: actionPlan_def finishPlan_def observed_def)
  then obtain t finished
    where t: "rt_tasks ?st ''task-1'' = Some t" "task_steps t = [finished]"
      "step_status finished = StepSucceeded"
    unfolding first_task_run[OF happy_fixture(1,2,4)] by auto
  note W = finished_steps_have_observations
  from W[of _ _ ?s _ ?step ?ob] index
  have one: "task_steps (o_task (finaliseStep ?s ?step ?ob)) ! step_index ?step =
      ?step\<lparr>step_status := (if obs_result ?ob = Success then StepSucceeded else StepFailed),
            step_observation := Some ?ob\<rparr>"
    by blast
  from W[of "orchestrator ?rt" 0 fixtureState] fresh
  have two: "list_all stepConsistent (task_steps (o_task (run (orchestrator ?rt) fixtureState)))"
    by blast
  from W[of _ _ _ _ _ _ _ _ ?rt ?st "''task-1''" t finished] reach t
  have three: "step_observation finished \<noteq> None" by simp
  show ?thesis unfolding Let_def using one two three t by simp
qed

section \<open>The browser executor and blocked origins\<close>

lemma navigate_with_url_valid:
  "getParam params ''url'' = JString url \<Longrightarrow>
   validateAction \<lparr>action_type = ''navigate'', action_params = params\<rparr> =
     Inr \<lparr>ok = True, issues = None\<rparr>"
  by (simp add: validateAction_def getTool_def readProperty_def TOOL_DEFINITIONS_def
      schemaIssues_def isMissing_def requiredParam_def optionalParam_def)

text \<open>
  A navigation to a blocked origin never reaches \<open>tab.loadURL\<close>: the handler returns
  for a missing tab, or throws, and the executor's \<open>catch\<close> turns the throw into an
  error observation. None of these paths sets \<open>didTerminate\<close>.
\<close>

lemma blocked_navigation_observation:
  assumes "getParam params ''url'' = JString url"
    and "list_ex (startsWith url) (blockedOrigins safety)"
  shows "createAgentExecutor safety page window
           \<lparr>payload_task = t, payload_step = st,
            payload_action = \<lparr>action_type = ''navigate'', action_params = params\<rparr>\<rparr> =
         observed Error
           (case resolveTab window (getParam params ''tabId'') of
              None \<Rightarrow> ''No active tab available for navigation.''
            | Some tab \<Rightarrow>
                if url = [] then ''navigate action requires a URL string.''
                else blockedMessage url) None"
  using assms
  by (simp add: createAgentExecutor_def dispatchAction_def handleNavigate_def stringParam_def
      split: option.splits)

text \<open>
  An error observation without \<open>didTerminate\<close> fails the step and nothing else: the
  loop goes on and the task keeps its status.
\<close>

lemma recoverable_error_continues:
  assumes "planner d i (planInput s) = Inr p" and "plan_finish p = None"
    and "plan_action p = Some a" and "validateAction a = Inr v" and "ok v"
    and "executor d i (executorPayload d i (planned d i s p) p a) = Inr (observed Error m None)"
  shows "snd (iteration d i s) = False"
    and "o_task (fst (iteration d i s)) =
           (o_task s)\<lparr>task_steps := task_steps (o_task s) @
              [\<lparr>step_id = randomUUID d i, step_index = length (task_steps (o_task s)),
                step_status = StepFailed, step_action = Some a,
                step_observation =
                  Some \<lparr>obs_result = Error, obs_message = m, obs_data = None\<rparr>,
                step_modelThought = Some (plan_thought p)\<rparr>]\<rparr>"
    and "map eventName (drop (length (o_events s)) (o_events (fst (iteration d i s)))) =
           [''planning-started'', ''planning-finished'', ''step-created'', ''step-executing'',
            ''step-updated'']"
proof -
  have it: "iteration d i s =
      (finaliseStep (executing d i (planned d i s p) p a) (newStep d i (planned d i s p) p)
         (exec_observation (observed Error m None)), False)"
    using assms by (intro iteration_continues) (simp_all add: observed_def)
  show "snd (iteration d i s) = False" by (simp add: it)
  show "o_task (fst (iteration d i s)) =
           (o_task s)\<lparr>task_steps := task_steps (o_task s) @
              [\<lparr>step_id = randomUUID d i, step_index = length (task_steps (o_task s)),
                step_status = StepFailed, step_action = Some a,
                step_observation =
                  Some \<lparr>obs_result = Error, obs_message = m, obs_data = None\<rparr>,
                step_modelThought = Some (plan_thought p)\<rparr>]\<rparr>"
    using assms(3) by (simp add: it observed_def newStep_def)
  show "map eventName (drop (length (o_events s)) (o_events (fst (iteration d i s)))) =
           [''planning-started'', ''planning-finished'', ''step-created'', ''step-executing'',
            ''step-updated'']"
    by (simp add: it planned_events[OF assms(1)])
qed

text \<open>
  C2, as stated, fails. With \<open>file://\<close> blocked, the executor answers a navigation to
  \<open>file:///etc/passwd\<close> with an error observation that does not set \<open>didTerminate\<close>,
  and the iteration leaves the task \<open>running\<close>, not \<open>failed\<close>.
\<close>

theorem blocked_navigation_is_not_terminal:
  "list_ex (startsWith ''file:///etc/passwd'') (blockedOrigins fixtureSafety) \<and>
   createAgentExecutor fixtureSafety fixturePage fixtureWindow
     \<lparr>payload_task = fixtureTask,
      payload_step = \<lparr>step_id = ''step-uuid'', step_index = 0, step_status = StepRunning,
                       step_action = None, step_observation = None, step_modelThought = None\<rparr>,
      payload_action = \<lparr>action_type = ''navigate'',
                         action_params = [(''url'', JString ''file:///etc/passwd'')]\<rparr>\<rparr> =
     \<lparr>exec_observation =
        \<lparr>obs_result = Error,
         obs_message = ''Navigation to URLs starting with '' @ dquote ''file:'' @
                         '' is blocked by safety policy.'',
         obs_data = None\<rparr>,
      exec_didTerminate = None, exec_summary = None\<rparr> \<and>
   snd (iteration (orchestrator (fixtureRuntime blockedPlanner browserExecutor)) 0
          (runStart fixtureState)) = False \<and>
   task_status (o_task (fst (iteration (orchestrator (fixtureRuntime blockedPlanner browserExecutor))
          0 (runStart fixtureState)))) = Running"
proof -
  let ?d = "orchestrator (fixtureRuntime blockedPlanner browserExecutor)"
  let ?params = "[(''url'', JString ''file:///etc/passwd'')]"
  let ?a = "\<lparr>action_type = ''navigate'', action_params = ?params\<rparr>"
  let ?p = "actionPlan ''open the file'' ''navigate'' ?params"
  let ?s = "runStart fixtureState"
  have url: "getParam ?params ''url'' = JString ''file:///etc/passwd''"
    by (simp add: getParam_def)
  have blocked: "list_ex (startsWith ''file:///etc/passwd'') (blockedOrigins fixtureSafety)"
    by (simp add: fixtureSafety_def startsWith_def)
  have tab: "resolveTab fixtureWindow (getParam ?params ''tabId'') = Some 0"
    by (simp add: resolveTab_def fixtureWindow_def getParam_def)
  have message: "blockedMessage ''file:///etc/passwd'' =
      ''Navigation to URLs starting with '' @ dquote ''file:'' @ '' is blocked by safety policy.''"
    by (simp add: blockedMessage_def dquote_def)
  note ob = blocked_navigation_observation[OF url blocked, of fixturePage fixtureWindow]
  have answer: "executor ?d 0 (executorPayload ?d 0 (planned ?d 0 ?s ?p) ?p ?a) =
      Inr (observed Error (blockedMessage ''file:///etc/passwd'') None)"
    by (simp add: fixtureRuntime_def browserExecutor_def executorPayload_def ob tab)
  have plan: "planner ?d 0 (planInput ?s) = Inr ?p" "plan_finish ?p = None"
      "plan_action ?p = Some ?a"
    by (simp_all add: fixtureRuntime_def blockedPlanner_def actionPlan_def)
  note it = recoverable_error_continues[OF plan navigate_with_url_valid[OF url] _ answer]
  have "task_status (o_task ?s) = Running" by simp
  with it(1,2) blocked ob[of fixtureTask] tab message show ?thesis
    by (simp add: observed_def)
qed

text \<open>
  C2, amended. For every navigate action whose url is a string that starts with one
  of the \<open>blockedOrigins\<close> prefixes, the executor returns an error observation and
  sets neither \<open>didTerminate\<close> nor a summary. With a tab available and a non-empty
  url the message is \<open>Navigation to URLs starting with "scheme:" is blocked by safety
  policy.\<close>, where \<open>scheme\<close> is the url up to its first colon; without a tab it is
  \<open>No active tab available for navigation.\<close>, and for an empty url \<open>navigate action
  requires a URL string.\<close> When the planner returns such an action without a finish
  directive, the orchestrator appends one step, finalised as \<open>failed\<close> with exactly
  that observation, and changes nothing else of the task: the status and
  \<open>lastError\<close> stay as they were. The iteration emits \<open>planning-started\<close>,
  \<open>planning-finished\<close>, \<open>step-created\<close>, \<open>step-executing\<close> and
  \<open>step-updated\<close>, no \<open>task-failed\<close>, and the loop goes on to the next
  iteration.
\<close>

theorem blocked_navigation_is_recoverable:
  assumes "getParam params ''url'' = JString url"
    and "list_ex (startsWith url) (blockedOrigins safety)"
  shows
    "(let action = \<lparr>action_type = ''navigate'', action_params = params\<rparr>;
          message =
            (case resolveTab window (getParam params ''tabId'') of
               None \<Rightarrow> ''No active tab available for navigation.''
             | Some tab \<Rightarrow>
                 if url = [] then ''navigate action requires a URL string.''
                 else ''Navigation to URLs starting with '' @ [CHR 0x22] @
                        takeWhile (\<lambda>c. c \<noteq> CHR '':'') url @ '':'' @ [CHR 0x22] @
                        '' is blocked by safety policy.'');
          observation = \<lparr>obs_result = Error, obs_message = message, obs_data = None\<rparr>
      in createAgentExecutor safety page window
           \<lparr>payload_task = t, payload_step = st, payload_action = action\<rparr> =
           \<lparr>exec_observation = observation, exec_didTerminate = None, exec_summary = None\<rparr> \<and>
         (planner d i (planInput s) = Inr p \<and> plan_finish p = None \<and>
          plan_action p = Some action \<and>
          (\<forall>payload. executor d i payload =
             Inr (createAgentExecutor safety page window payload)) \<longrightarrow>
            snd (iteration d i s) = False \<and>
            o_task (fst (iteration d i s)) =
              (o_task s)\<lparr>task_steps := task_steps (o_task s) @
                 [\<lparr>step_id = randomUUID d i, step_index = length (task_steps (o_task s)),
                   step_status = StepFailed, step_action = Some action,
                   step_observation = Some observation,
                   step_modelThought = Some (plan_thought p)\<rparr>]\<rparr> \<and>
            map eventName (drop (length (o_events s)) (o_events (fst (iteration d i s)))) =
              [''planning-started'', ''planning-finished'', ''step-created'',
               ''step-executing'', ''step-updated'']))"
proof -
  let ?a = "\<lparr>action_type = ''navigate'', action_params = params\<rparr>"
  let ?message = "case resolveTab window (getParam params ''tabId'') of
               None \<Rightarrow> ''No active tab available for navigation.''
             | Some tab \<Rightarrow>
                 if url = [] then ''navigate action requires a URL string.''
                 else ''Navigation to URLs starting with '' @ [CHR 0x22] @
                        takeWhile (\<lambda>c. c \<noteq> CHR '':'') url @ '':'' @ [CHR 0x22] @
                        '' is blocked by safety policy.''"
  let ?ob = "\<lparr>obs_result = Error, obs_message = ?message, obs_data = None\<rparr>"
  have executed: "createAgentExecutor safety page window
      \<lparr>payload_task = t', payload_step = st', payload_action = ?a\<rparr> =
      observed Error ?message None" for t' st'
    unfolding blocked_navigation_observation[OF assms]
    by (simp add: blockedMessage_def dquote_def split: option.splits)
  have first: "createAgentExecutor safety page window
      \<lparr>payload_task = t, payload_step = st, payload_action = ?a\<rparr> =
      \<lparr>exec_observation = ?ob, exec_didTerminate = None, exec_summary = None\<rparr>"
    unfolding executed by (simp add: observed_def)
  have second: "snd (iteration d i s) = False \<and>
      o_task (fst (iteration d i s)) =
        (o_task s)\<lparr>task_steps := task_steps (o_task s) @
           [\<lparr>step_id = randomUUID d i, step_index = length (task_steps (o_task s)),
             step_status = StepFailed, step_action = Some ?a,
             step_observation = Some ?ob,
             step_modelThought = Some (plan_thought p)\<rparr>]\<rparr> \<and>
      map eventName (drop (length (o_events s)) (o_events (fst (iteration d i s)))) =
        [''planning-started'', ''planning-finished'', ''step-created'',
         ''step-executing'', ''step-updated'']"
    if h: "planner d i (planInput s) = Inr p \<and> plan_finish p = None \<and>
      plan_action p = Some ?a \<and>
      (\<forall>payload. executor d i payload = Inr (createAgentExecutor safety page window payload))"
  proof -
    from h have plan: "planner d i (planInput s) = Inr p" "plan_finish p = None"
      "plan_action p = Some ?a" by simp_all
    from h have "executor d i (executorPayload d i (planned d i s p) p ?a) =
        Inr (observed Error ?message None)"
      by (simp add: executorPayload_def executed)
    note it = recoverable_error_continues[OF plan navigate_with_url_valid[OF assms(1)] _ this]
    from it(1) it(2) it(3) show ?thesis by simp
  qed
  from first second show ?thesis unfolding Let_def by blast
qed

theorem blocked_navigation_is_recoverable_witness:
  "createAgentExecutor fixtureSafety fixturePage fixtureWindow
     \<lparr>payload_task = fixtureTask,
      payload_step = \<lparr>step_id = ''step-uuid'', step_index = 0,
                       step_status = StepRunning, step_action = None,
                       step_observation = None, step_modelThought = None\<rparr>,
      payload_action = \<lparr>action_type = ''navigate'',
         action_params = [(''url'', JString ''file:///etc/passwd'')]\<rparr>\<rparr> =
     \<lparr>exec_observation =
        \<lparr>obs_result = Error,
         obs_message = ''Navigation to URLs starting with '' @ [CHR 0x22] @ ''file:'' @
                         [CHR 0x22] @ '' is blocked by safety policy.'',
         obs_data = None\<rparr>,
      exec_didTerminate = None, exec_summary = None\<rparr> \<and>
   (let it = iteration (orchestrator (fixtureRuntime blockedPlanner browserExecutor)) 0
               (runStart fixtureState)
    in snd it = False \<and> task_status (o_task (fst it)) = Running \<and>
       task_lastError (o_task (fst it)) = None \<and>
       task_steps (o_task (fst it)) =
         [\<lparr>step_id = ''step-uuid'', step_index = 0, step_status = StepFailed,
           step_action = Some \<lparr>action_type = ''navigate'',
              action_params = [(''url'', JString ''file:///etc/passwd'')]\<rparr>,
           step_observation =
             Some \<lparr>obs_result = Error,
                   obs_message = ''Navigation to URLs starting with '' @ [CHR 0x22] @
                                   ''file:'' @ [CHR 0x22] @ '' is blocked by safety policy.'',
                   obs_data = None\<rparr>,
           step_modelThought = Some ''open the file''\<rparr>] \<and>
       map eventName (o_events (fst it)) =
         [''task-started'', ''planning-started'', ''planning-finished'', ''step-created'',
          ''step-executing'', ''step-updated''])"
proof -
  let ?d = "orchestrator (fixtureRuntime blockedPlanner browserExecutor)"
  let ?params = "[(''url'', JString ''file:///etc/passwd'')]"
  let ?p = "actionPlan ''open the file'' ''navigate'' ?params"
  let ?s = "runStart fixtureState"
  have url: "getParam ?params ''url'' = JString ''file:///etc/passwd''"
    by (simp add: getParam_def)
  have blocked: "list_ex (startsWith ''file:///etc/passwd'') (blockedOrigins fixtureSafety)"
    by (simp add: fixtureSafety_def startsWith_def)
  have tab: "resolveTab fixtureWindow (getParam ?params ''tabId'') = Some 0"
    by (simp add: resolveTab_def fixtureWindow_def getParam_def)
  have orch: "planner ?d 0 (planInput ?s) = Inr ?p \<and> plan_finish ?p = None \<and>
      plan_action ?p = Some \<lparr>action_type = ''navigate'', action_params = ?params\<rparr> \<and>
      (\<forall>payload. executor ?d 0 payload =
         Inr (createAgentExecutor fixtureSafety fixturePage fixtureWindow payload))"
    by (simp add: fixtureRuntime_def blockedPlanner_def actionPlan_def browserExecutor_def)
  have start: "task_status (o_task ?s) = Running" "task_lastError (o_task ?s) = None"
    "task_steps (o_task ?s) = []" "o_events ?s = [TaskStarted ''task-1'']"
    "randomUUID ?d 0 = ''step-uuid''" "plan_thought ?p = ''open the file''"
    by (simp_all add: fixtureState_def fixtureTask_def fixtureRuntime_def actionPlan_def runStart_def)
  have scheme: "takeWhile (\<lambda>c. c \<noteq> CHR '':'') ''file:///etc/passwd'' = ''file''"
    by simp
  note claim = blocked_navigation_is_recoverable[OF url blocked,
      where page = fixturePage and window = fixtureWindow and t = fixtureTask and d = ?d
        and i = 0 and s = ?s and p = ?p, unfolded Let_def tab option.case]
  from claim have executed: "createAgentExecutor fixtureSafety fixturePage fixtureWindow
     \<lparr>payload_task = fixtureTask,
      payload_step = \<lparr>step_id = ''step-uuid'', step_index = 0,
                       step_status = StepRunning, step_action = None,
                       step_observation = None, step_modelThought = None\<rparr>,
      payload_action = \<lparr>action_type = ''navigate'', action_params = ?params\<rparr>\<rparr> =
     \<lparr>exec_observation =
        \<lparr>obs_result = Error,
         obs_message = ''Navigation to URLs starting with '' @ [CHR 0x22] @ ''file:'' @
                         [CHR 0x22] @ '' is blocked by safety policy.'',
         obs_data = None\<rparr>,
      exec_didTerminate = None, exec_summary = None\<rparr>"
    by simp
  note rest = claim[THEN conjunct2, THEN mp, OF orch]
  note goes_on = rest[THEN conjunct1]
  note task = rest[THEN conjunct2, THEN conjunct1]
  note new = rest[THEN conjunct2, THEN conjunct2]
  have status: "task_status (o_task (fst (iteration ?d 0 ?s))) = Running"
    and lastError: "task_lastError (o_task (fst (iteration ?d 0 ?s))) = None"
    unfolding task by (simp_all add: fixtureState_def fixtureTask_def)
  have steps: "task_steps (o_task (fst (iteration ?d 0 ?s))) =
         [\<lparr>step_id = ''step-uuid'', step_index = 0, step_status = StepFailed,
           step_action = Some \<lparr>action_type = ''navigate'', action_params = ?params\<rparr>,
           step_observation =
             Some \<lparr>obs_result = Error,
                   obs_message = ''Navigation to URLs starting with '' @ [CHR 0x22] @
                                   ''file:'' @ [CHR 0x22] @ '' is blocked by safety policy.'',
                   obs_data = None\<rparr>,
           step_modelThought = Some ''open the file''\<rparr>]"
    unfolding task scheme start(5,6) by (simp add: fixtureState_def fixtureTask_def)
  obtain evs where evs: "o_events (fst (iteration ?d 0 ?s)) = o_events ?s @ evs"
    using iteration_events[of ?d 0 ?s] by blast
  from new have "map eventName evs =
      [''planning-started'', ''planning-finished'', ''step-created'', ''step-executing'',
       ''step-updated'']"
    unfolding evs by simp
  then have events: "map eventName (o_events (fst (iteration ?d 0 ?s))) =
         [''task-started'', ''planning-started'', ''planning-finished'', ''step-created'',
          ''step-executing'', ''step-updated'']"
    unfolding evs start(4) by simp
  from executed goes_on status lastError steps events show ?thesis
    unfolding Let_def by blast
qed

section \<open>The scheduler under exceptions\<close>

text \<open>
  \<open>drainQueue\<close> starts a prefix of the queue, in order, and at least the head when
  there is room.
\<close>

lemma drainQueue_starts:
  "schedulerInvariant limit st \<Longrightarrow>
   \<exists>started. rt_queue st = started @ rt_queue (drainQueue limit st) \<and>
     rt_activeTaskIds (drainQueue limit st) = rt_activeTaskIds st @ started \<and>
     (length (rt_activeTaskIds st) < limit \<and> rt_queue st \<noteq> [] \<longrightarrow>
        started \<noteq> [] \<and> hd started = hd (rt_queue st))"
proof (induction "length (rt_queue st)" arbitrary: st)
  case 0
  then have "drainQueue limit st = st" by (intro drainQueue_stop) simp
  with 0 show ?case by simp
next
  case (Suc n)
  then obtain q qs where queue: "rt_queue st = q # qs" by (cases "rt_queue st") auto
  show ?case
  proof (cases "length (rt_activeTaskIds st) < limit")
    case False
    then have "drainQueue limit st = st" by (intro drainQueue_stop) simp
    with False show ?thesis by simp
  next
    case True
    let ?st' = "onTask runStart q
                  (st\<lparr>rt_queue := qs, rt_activeTaskIds := setAdd (rt_activeTaskIds st) q\<rparr>)"
    note head = start_head[OF Suc.prems True queue]
    have "n = length (rt_queue ?st')" using Suc.hyps(2) queue head(2) by simp
    from Suc.hyps(1)[OF this head(1)] obtain more where
      more: "rt_queue ?st' = more @ rt_queue (drainQueue limit ?st')"
        "rt_activeTaskIds (drainQueue limit ?st') = rt_activeTaskIds ?st' @ more"
      by blast
    have step: "drainQueue limit st = drainQueue limit ?st'"
      by (rule drainQueue_start[OF True queue])
    show ?thesis
    proof (intro exI[of _ "q # more"] conjI impI)
      show "rt_queue st = (q # more) @ rt_queue (drainQueue limit st)"
        using more(1) head(2) queue step by simp
      show "rt_activeTaskIds (drainQueue limit st) = rt_activeTaskIds st @ q # more"
        using more(2) head(3) step by simp
      show "q # more \<noteq> []" by simp
      show "hd (q # more) = hd (rt_queue st)" using queue by simp
    qed
  qed
qed

text \<open>
  An exception escaping the orchestration of an active task fails the task in
  \<open>runTask\<close>; the \<open>catch\<close> callback of \<open>drainQueue\<close> then gives the slot back and
  starts the head of the queue in it.
\<close>

lemma throw_releases_slot:
  fixes e :: thrown and i :: string
  assumes inv: "schedulerInvariant (parallelLimit rt) st"
    and tasks: "tasksInvariant bound st"
    and active: "i \<in> set (rt_activeTaskIds st)"
    and running: "statusOf st i = Some Running"
  defines "message \<equiv> (case e of JsError m \<Rightarrow> m | NonError \<Rightarrow> ''Unknown orchestrator error.'')"
  defines "st1 \<equiv> runtimeStep rt (RunThrows i e) st"
  defines "st2 \<equiv> runtimeStep rt (RunSettled i) st1"
  shows "statusOf st1 i = Some Failed"
    and "map_option task_lastError (rt_tasks st1 i) = Some (Some message)"
    and "rt_events st1 = rt_events st @ [TaskFailed i message]"
    and "rt_activeTaskIds st1 = rt_activeTaskIds st"
    and "rt_queue st1 = rt_queue st"
    and "i \<notin> set (rt_activeTaskIds st2)"
    and "rt_queue st \<noteq> [] \<Longrightarrow> hd (rt_queue st) \<in> set (rt_activeTaskIds st2)"
    and "set (rt_queue st) \<subseteq> set (rt_activeTaskIds st2) \<union> set (rt_queue st2)"
proof -
  from running obtain t where t: "rt_tasks st i = Some t" by (auto simp: statusOf_def)
  have st1: "st1 = runTaskCatch i e st"
    using active running by (simp add: st1_def)
  have expl: "st1 = st\<lparr>rt_tasks := (rt_tasks st)
                         (i \<mapsto> t\<lparr>task_status := Failed, task_lastError := Some message\<rparr>),
                       rt_events := rt_events st @ [TaskFailed i message]\<rparr>"
    unfolding st1 message_def by (rule runTaskCatch_stored[OF t])
  show failed: "statusOf st1 i = Some Failed" by (simp add: expl statusOf_def)
  show "map_option task_lastError (rt_tasks st1 i) = Some (Some message)" by (simp add: expl)
  show "rt_events st1 = rt_events st @ [TaskFailed i message]" by (simp add: expl)
  show a1: "rt_activeTaskIds st1 = rt_activeTaskIds st" by (simp add: expl)
  show q1: "rt_queue st1 = rt_queue st" by (simp add: expl)
  from runThrows_invariant[OF inv tasks active running, of e]
  have inv1: "schedulerInvariant (parallelLimit rt) st1" by (simp add: st1)
  let ?released = "st1\<lparr>rt_activeTaskIds := setDelete (rt_activeTaskIds st1) i\<rparr>"
  have st2: "st2 = drainQueue (parallelLimit rt) ?released"
    using active failed by (simp add: st2_def a1 runSettled_def)
  have inv_released: "schedulerInvariant (parallelLimit rt) ?released"
    using release_invariant[OF inv1, of i] failed by simp
  have released: "rt_queue ?released = rt_queue st"
    "rt_activeTaskIds ?released = setDelete (rt_activeTaskIds st) i"
    by (simp_all add: a1 q1)
  from drainQueue_starts[OF inv_released] obtain started where
    "rt_queue ?released = started @ rt_queue (drainQueue (parallelLimit rt) ?released)"
    "rt_activeTaskIds (drainQueue (parallelLimit rt) ?released) =
       rt_activeTaskIds ?released @ started"
    "length (rt_activeTaskIds ?released) < parallelLimit rt \<and> rt_queue ?released \<noteq> [] \<longrightarrow>
       started \<noteq> [] \<and> hd started = hd (rt_queue ?released)"
    by (elim exE conjE)
  then have started: "rt_queue st = started @ rt_queue st2"
      "rt_activeTaskIds st2 = setDelete (rt_activeTaskIds st) i @ started"
      "length (setDelete (rt_activeTaskIds st) i) < parallelLimit rt \<and> rt_queue st \<noteq> [] \<longrightarrow>
         started \<noteq> [] \<and> hd started = hd (rt_queue st)"
    unfolding released st2[symmetric] by blast+
  have notq: "i \<notin> set (rt_queue st)" using inv active by (auto simp: schedulerInvariant_def)
  then have "i \<notin> set started" using started(1) by (metis Un_iff set_append)
  then show "i \<notin> set (rt_activeTaskIds st2)" by (simp add: started(2) setDelete_def)
  have "length (setDelete (rt_activeTaskIds st) i) < length (rt_activeTaskIds st)"
    unfolding setDelete_def using active by (intro length_filter_less[of i]) simp_all
  moreover have "length (rt_activeTaskIds st) \<le> parallelLimit rt"
    using inv by (simp add: schedulerInvariant_def)
  ultimately have room: "length (setDelete (rt_activeTaskIds st) i) < parallelLimit rt"
    by simp
  show "hd (rt_queue st) \<in> set (rt_activeTaskIds st2)" if "rt_queue st \<noteq> []"
  proof -
    from started(3) room that have "started \<noteq> []" "hd started = hd (rt_queue st)" by simp_all
    then have "hd (rt_queue st) \<in> set started" by (metis hd_in_set)
    then show ?thesis by (simp add: started(2))
  qed
  have "set (rt_queue st) = set started \<union> set (rt_queue st2)"
    by (subst started(1)) simp
  then show "set (rt_queue st) \<subseteq> set (rt_activeTaskIds st2) \<union> set (rt_queue st2)"
    by (auto simp: started(2))
qed

text \<open>
  C5. In every state the runtime can reach, the active set and the set of running
  tasks have at most \<open>maxParallelTasks\<close> members, and a task waits only while all
  slots are taken. The tasks created so far are those started so far, in the same
  order, followed by the queue: tasks start in the order in which they were enqueued
  and none is skipped. When the orchestration of an active, running task throws, the
  runtime sets the task to \<open>failed\<close>, records the message as \<open>lastError\<close> and emits
  \<open>task-failed\<close>; when the promise of \<open>runTask\<close> then rejects, the task leaves the
  active set, the head of the queue starts, and every queued task is either started or
  still queued.
\<close>

theorem scheduler_bounded_fifo_releasing:
  assumes "reachable rt st"
  shows "length (rt_activeTaskIds st) \<le> parallelLimit rt \<and>
         runningIds st \<subseteq> set (rt_activeTaskIds st) \<and>
         card (runningIds st) \<le> parallelLimit rt \<and>
         createdIds (rt_events st) = startedIds (rt_events st) @ rt_queue st \<and>
         (rt_queue st \<noteq> [] \<longrightarrow> length (rt_activeTaskIds st) = parallelLimit rt) \<and>
         (i \<in> set (rt_activeTaskIds st) \<and> statusOf st i = Some Running \<longrightarrow>
            (let message = (case e of JsError m \<Rightarrow> m
                            | NonError \<Rightarrow> ''Unknown orchestrator error.'');
                 st1 = runtimeStep rt (RunThrows i e) st;
                 st2 = runtimeStep rt (RunSettled i) st1
             in statusOf st1 i = Some Failed \<and>
                map_option task_lastError (rt_tasks st1 i) = Some (Some message) \<and>
                rt_events st1 = rt_events st @ [TaskFailed i message] \<and>
                rt_activeTaskIds st1 = rt_activeTaskIds st \<and>
                rt_queue st1 = rt_queue st \<and>
                i \<notin> set (rt_activeTaskIds st2) \<and>
                length (rt_activeTaskIds st2) \<le> parallelLimit rt \<and>
                (rt_queue st \<noteq> [] \<longrightarrow> hd (rt_queue st) \<in> set (rt_activeTaskIds st2)) \<and>
                set (rt_queue st) \<subseteq> set (rt_activeTaskIds st2) \<union> set (rt_queue st2)))"
proof -
  note invs = reachable_invariant[OF assms]
  from invs have inv: "schedulerInvariant (parallelLimit rt) st"
    and sat: "saturated (parallelLimit rt) st"
    and tasks: "tasksInvariant (maxSteps (orchestrator rt)) st" by simp_all
  have bound: "length (rt_activeTaskIds st) \<le> parallelLimit rt"
    using inv by (simp add: schedulerInvariant_def)
  have sub: "runningIds st \<subseteq> set (rt_activeTaskIds st)"
    using inv by (simp add: schedulerInvariant_def)
  have "card (runningIds st) \<le> card (set (rt_activeTaskIds st))"
    by (rule card_mono[OF _ sub]) simp
  also have "\<dots> \<le> length (rt_activeTaskIds st)" by (rule card_length)
  finally have running: "card (runningIds st) \<le> parallelLimit rt" using bound by simp
  have fifo: "createdIds (rt_events st) = startedIds (rt_events st) @ rt_queue st"
    using inv by (simp add: schedulerInvariant_def)
  have full: "rt_queue st \<noteq> [] \<longrightarrow> length (rt_activeTaskIds st) = parallelLimit rt"
    using sat bound by (auto simp: saturated_def)
  have throws: "let message = (case e of JsError m \<Rightarrow> m
                            | NonError \<Rightarrow> ''Unknown orchestrator error.'');
                 st1 = runtimeStep rt (RunThrows i e) st;
                 st2 = runtimeStep rt (RunSettled i) st1
             in statusOf st1 i = Some Failed \<and>
                map_option task_lastError (rt_tasks st1 i) = Some (Some message) \<and>
                rt_events st1 = rt_events st @ [TaskFailed i message] \<and>
                rt_activeTaskIds st1 = rt_activeTaskIds st \<and>
                rt_queue st1 = rt_queue st \<and>
                i \<notin> set (rt_activeTaskIds st2) \<and>
                length (rt_activeTaskIds st2) \<le> parallelLimit rt \<and>
                (rt_queue st \<noteq> [] \<longrightarrow> hd (rt_queue st) \<in> set (rt_activeTaskIds st2)) \<and>
                set (rt_queue st) \<subseteq> set (rt_activeTaskIds st2) \<union> set (rt_queue st2)"
    if h: "i \<in> set (rt_activeTaskIds st) \<and> statusOf st i = Some Running"
  proof -
    from h have active: "i \<in> set (rt_activeTaskIds st)"
      and run: "statusOf st i = Some Running" by simp_all
    note path = throw_releases_slot[OF inv tasks active run, of e]
    have "reachable rt (runtimeStep rt (RunSettled i) (runtimeStep rt (RunThrows i e) st))"
      by (intro reachable_step assms)
    from reachable_invariant[OF this]
    have "length (rt_activeTaskIds
            (runtimeStep rt (RunSettled i) (runtimeStep rt (RunThrows i e) st)))
          \<le> parallelLimit rt"
      by (simp add: schedulerInvariant_def)
    with path show ?thesis unfolding Let_def by blast
  qed
  from bound sub running fifo full throws show ?thesis by blast
qed

text \<open>Creating a task while a slot is free and nothing waits, and while no slot is free.\<close>

lemma create_with_room:
  assumes "rt_modelReady rt" and "0 < length (trim goal)" and "rt_tasks st uuid = None"
    and "rt_queue st = []" and "length (rt_activeTaskIds st) < parallelLimit rt"
    and "uuid \<notin> set (rt_activeTaskIds st)"
  shows "runtimeStep rt (CreateTask goal ctx uuid) st =
    st\<lparr>rt_tasks := (rt_tasks st)(uuid \<mapsto>
           \<lparr>task_id = uuid, task_goal = goal, task_status = Running, task_steps = [],
            task_summary = None, task_context = ctx, task_lastError = None\<rparr>),
       rt_activeTaskIds := rt_activeTaskIds st @ [uuid],
       rt_events := rt_events st @
           [TaskCreated \<lparr>task_id = uuid, task_goal = goal, task_status = Pending,
                          task_steps = [], task_summary = None, task_context = ctx,
                          task_lastError = None\<rparr>,
            TaskStarted uuid]\<rparr>"
proof -
  let ?task = "\<lparr>task_id = uuid, task_goal = goal, task_status = Pending, task_steps = [],
                task_summary = None, task_context = ctx, task_lastError = None\<rparr>"
  let ?queued = "st\<lparr>rt_tasks := (rt_tasks st)(uuid \<mapsto> ?task),
                     rt_events := rt_events st @ [TaskCreated ?task],
                     rt_queue := rt_queue st @ [uuid]\<rparr>"
  let ?started = "st\<lparr>rt_queue := [],
                      rt_activeTaskIds := rt_activeTaskIds st @ [uuid],
                      rt_tasks := (rt_tasks st)(uuid \<mapsto> ?task\<lparr>task_status := Running\<rparr>),
                      rt_events := rt_events st @ [TaskCreated ?task, TaskStarted uuid]\<rparr>"
  from assms(2) have goal: "goal \<noteq> []" by (auto simp: trim_def)
  have "runtimeStep rt (CreateTask goal ctx uuid) st = drainQueue (parallelLimit rt) ?queued"
    using assms goal by (simp add: createTask_def enqueue_def Let_def)
  also have "\<dots> = drainQueue (parallelLimit rt) ?started"
    using assms(4-6)
    by (subst drainQueue_start[of _ _ uuid "[]"]) (simp_all add: setAdd_def onTask_def)
  also have "\<dots> = ?started" by (intro drainQueue_stop) simp
  also have "\<dots> = st\<lparr>rt_tasks := (rt_tasks st)(uuid \<mapsto> ?task\<lparr>task_status := Running\<rparr>),
                        rt_activeTaskIds := rt_activeTaskIds st @ [uuid],
                        rt_events := rt_events st @ [TaskCreated ?task, TaskStarted uuid]\<rparr>"
    using assms(4) by (intro RuntimeState.equality) simp_all
  finally show ?thesis by simp
qed

lemma create_when_full:
  assumes "rt_modelReady rt" and "0 < length (trim goal)" and "rt_tasks st uuid = None"
    and "\<not> length (rt_activeTaskIds st) < parallelLimit rt"
  shows "runtimeStep rt (CreateTask goal ctx uuid) st =
    st\<lparr>rt_tasks := (rt_tasks st)(uuid \<mapsto>
           \<lparr>task_id = uuid, task_goal = goal, task_status = Pending, task_steps = [],
            task_summary = None, task_context = ctx, task_lastError = None\<rparr>),
       rt_queue := rt_queue st @ [uuid],
       rt_events := rt_events st @
           [TaskCreated \<lparr>task_id = uuid, task_goal = goal, task_status = Pending,
                          task_steps = [], task_summary = None, task_context = ctx,
                          task_lastError = None\<rparr>]\<rparr>"
proof -
  let ?task = "\<lparr>task_id = uuid, task_goal = goal, task_status = Pending, task_steps = [],
                task_summary = None, task_context = ctx, task_lastError = None\<rparr>"
  let ?queued = "st\<lparr>rt_tasks := (rt_tasks st)(uuid \<mapsto> ?task),
                     rt_events := rt_events st @ [TaskCreated ?task],
                     rt_queue := rt_queue st @ [uuid]\<rparr>"
  from assms(2) have goal: "goal \<noteq> []" by (auto simp: trim_def)
  have "runtimeStep rt (CreateTask goal ctx uuid) st = drainQueue (parallelLimit rt) ?queued"
    using assms goal by (simp add: createTask_def enqueue_def Let_def)
  also have "\<dots> = ?queued" using assms(4) by (intro drainQueue_stop) simp
  finally show ?thesis by simp
qed

theorem scheduler_bounded_fifo_releasing_witness:
  "(let rt = fixtureRuntime happyPlanner happyExecutor;
        st = runCalls rt [CreateTask ''Open example.com'' None ''t1'',
                          CreateTask ''Read the page'' None ''t2'',
                          CreateTask ''Close the tab'' None ''t3''] initialState;
        st1 = runtimeStep rt (RunThrows ''t1'' (JsError ''listener failed'')) st;
        st2 = runtimeStep rt (RunSettled ''t1'') st1
    in parallelLimit rt = 2 \<and> rt_activeTaskIds st = [''t1'', ''t2''] \<and>
       rt_queue st = [''t3''] \<and> statusOf st ''t1'' = Some Running \<and>
       createdIds (rt_events st) = startedIds (rt_events st) @ [''t3''] \<and>
       statusOf st1 ''t1'' = Some Failed \<and>
       map_option task_lastError (rt_tasks st1 ''t1'') = Some (Some ''listener failed'') \<and>
       rt_events st1 = rt_events st @ [TaskFailed ''t1'' ''listener failed''] \<and>
       ''t1'' \<notin> set (rt_activeTaskIds st2) \<and> ''t3'' \<in> set (rt_activeTaskIds st2) \<and>
       length (rt_activeTaskIds st2) \<le> 2)"
proof -
  let ?rt = "fixtureRuntime happyPlanner happyExecutor"
  let ?a = "runtimeStep ?rt (CreateTask ''Open example.com'' None ''t1'') initialState"
  let ?b = "runtimeStep ?rt (CreateTask ''Read the page'' None ''t2'') ?a"
  let ?c = "runtimeStep ?rt (CreateTask ''Close the tab'' None ''t3'') ?b"
  have ready: "rt_modelReady ?rt" by (simp add: fixtureRuntime_def)
  have limit: "parallelLimit ?rt = 2"
    by (simp add: fixtureRuntime_def parallelLimit_def mergeConfig_def fixtureSafety_def)
  have goals: "0 < length (trim ''Open example.com'')" "0 < length (trim ''Read the page'')"
    "0 < length (trim ''Close the tab'')"
    by code_simp+
  have a_eq: "?a = initialState
      \<lparr>rt_tasks := (rt_tasks initialState)(''t1'' \<mapsto>
           \<lparr>task_id = ''t1'', task_goal = ''Open example.com'', task_status = Running,
            task_steps = [], task_summary = None, task_context = None,
            task_lastError = None\<rparr>),
       rt_activeTaskIds := rt_activeTaskIds initialState @ [''t1''],
       rt_events := rt_events initialState @
           [TaskCreated \<lparr>task_id = ''t1'', task_goal = ''Open example.com'',
                          task_status = Pending, task_steps = [], task_summary = None,
                          task_context = None, task_lastError = None\<rparr>,
            TaskStarted ''t1'']\<rparr>"
    by (rule create_with_room[OF ready goals(1)]) (simp_all add: initialState_def limit)
  have a: "rt_tasks ?a ''t2'' = None" "rt_tasks ?a ''t3'' = None" "rt_queue ?a = []"
    "rt_activeTaskIds ?a = [''t1'']" "statusOf ?a ''t1'' = Some Running"
    "rt_events ?a =
       [TaskCreated \<lparr>task_id = ''t1'', task_goal = ''Open example.com'',
                      task_status = Pending, task_steps = [], task_summary = None,
                      task_context = None, task_lastError = None\<rparr>,
        TaskStarted ''t1'']"
    unfolding a_eq by (simp_all add: initialState_def statusOf_def)
  have b_eq: "?b = ?a
      \<lparr>rt_tasks := (rt_tasks ?a)(''t2'' \<mapsto>
           \<lparr>task_id = ''t2'', task_goal = ''Read the page'', task_status = Running,
            task_steps = [], task_summary = None, task_context = None,
            task_lastError = None\<rparr>),
       rt_activeTaskIds := rt_activeTaskIds ?a @ [''t2''],
       rt_events := rt_events ?a @
           [TaskCreated \<lparr>task_id = ''t2'', task_goal = ''Read the page'',
                          task_status = Pending, task_steps = [], task_summary = None,
                          task_context = None, task_lastError = None\<rparr>,
            TaskStarted ''t2'']\<rparr>"
    by (rule create_with_room[OF ready goals(2)]) (simp_all add: a limit del: runtimeStep.simps)
  have b: "rt_tasks ?b ''t3'' = None" "rt_queue ?b = []"
    "rt_activeTaskIds ?b = [''t1'', ''t2'']" "statusOf ?b ''t1'' = Some Running"
    unfolding b_eq using a by (simp_all add: statusOf_def del: runtimeStep.simps)
  have c_eq: "?c = ?b
      \<lparr>rt_tasks := (rt_tasks ?b)(''t3'' \<mapsto>
           \<lparr>task_id = ''t3'', task_goal = ''Close the tab'', task_status = Pending,
            task_steps = [], task_summary = None, task_context = None,
            task_lastError = None\<rparr>),
       rt_queue := rt_queue ?b @ [''t3''],
       rt_events := rt_events ?b @
           [TaskCreated \<lparr>task_id = ''t3'', task_goal = ''Close the tab'',
                          task_status = Pending, task_steps = [], task_summary = None,
                          task_context = None, task_lastError = None\<rparr>]\<rparr>"
    by (rule create_when_full[OF ready goals(3)]) (simp_all add: b limit del: runtimeStep.simps)
  have c: "rt_queue ?c = [''t3'']" "rt_activeTaskIds ?c = [''t1'', ''t2'']"
    "statusOf ?c ''t1'' = Some Running"
    unfolding c_eq using b by (simp_all add: statusOf_def del: runtimeStep.simps)
  have st: "runCalls ?rt [CreateTask ''Open example.com'' None ''t1'',
                          CreateTask ''Read the page'' None ''t2'',
                          CreateTask ''Close the tab'' None ''t3''] initialState = ?c"
    by (simp del: runtimeStep.simps)
  have "reachable ?rt ?c" by (intro reachable_step reachable_initial)
  from scheduler_bounded_fifo_releasing[OF this, of "''t1''" "JsError ''listener failed''"]
    limit c
  show ?thesis unfolding st Let_def by (simp del: runtimeStep.simps)
qed


end
